theory Spec2Isabelle
  imports Main "HOL-Library.AList" "HOL-Library.Multiset" "HOL-Library.Sublist" "HOL-Library.Word"
begin

unbundle bit_operations_syntax

section \<open>Values, option objects and regular expressions\<close>

text \<open>
  The values: what an argument or an option can be and what an array of candidates can
  hold. A number is its IEEE 754 double, given by its 64 bits. \<open>JObj\<close> is a plain object,
  known by its address: not an array, not a regular expression, not a function, and
  without a property \<open>length\<close>. Arrays are arguments (\<open>arg\<close> below); an array as an
  element of an array or as the value of an option is not represented.
\<close>

datatype jsval = JUndefined | JNull | JBool bool | JNum "64 word" | JStr string | JObj nat

text \<open>
  \<open>NaN\<close> is a double whose exponent bits are all set and whose fraction is not zero;
  zero is \<open>+0\<close> or \<open>-0\<close>.
\<close>

definition is_NaN :: "64 word \<Rightarrow> bool" where
  "is_NaN w = (w AND 0x7FF0000000000000 = 0x7FF0000000000000 \<and> w AND 0x000FFFFFFFFFFFFF \<noteq> 0)"

definition is_zero :: "64 word \<Rightarrow> bool" where
  "is_zero w = (w AND 0x7FFFFFFFFFFFFFFF = 0)"

fun truthy :: "jsval \<Rightarrow> bool" where
  "truthy JUndefined = False"
| "truthy JNull = False"
| "truthy (JBool b) = b"
| "truthy (JNum w) = (\<not> is_zero w \<and> \<not> is_NaN w)"
| "truthy (JStr s) = (s \<noteq> [])"
| "truthy (JObj a) = True"

text \<open>
  \<open>a === b\<close>: \<open>NaN\<close> is not equal to itself, the two zeros are equal, and otherwise two
  values are equal when they are the same, two objects when they are the same object.
\<close>

fun strict_eq :: "jsval \<Rightarrow> jsval \<Rightarrow> bool" where
  "strict_eq (JNum a) (JNum b) = (\<not> is_NaN a \<and> \<not> is_NaN b \<and> (a = b \<or> is_zero a \<and> is_zero b))"
| "strict_eq a b = (a = b)"

text \<open>
  An options object: its own enumerable properties, in insertion order. Reading a
  property that is not there gives \<open>undefined\<close>; assigning keeps the position of an
  existing property and appends a new one.
\<close>

type_synonym obj = "(string \<times> jsval) list"

definition hasOwnProperty :: "obj \<Rightarrow> string \<Rightarrow> bool" where
  "hasOwnProperty ob prop = (map_of ob prop \<noteq> None)"

definition get_prop :: "obj \<Rightarrow> string \<Rightarrow> jsval" where
  "get_prop ob prop = (case map_of ob prop of None \<Rightarrow> JUndefined | Some v \<Rightarrow> v)"

definition set_prop :: "obj \<Rightarrow> string \<Rightarrow> jsval \<Rightarrow> obj" where
  "set_prop ob prop v = AList.update prop v ob"

text \<open>
  A regular expression object: the source and the flags it was constructed with, and
  its \<open>lastIndex\<close>, which \<open>test\<close> reads and writes under the flags \<open>g\<close> and \<open>y\<close>.
\<close>

record regexp =
  source :: string
  flags :: string
  lastIndex :: nat

text \<open>
  The failures: the \<open>Error\<close> that \<open>match\<close> throws, the \<open>TypeError\<close> of reading element 0
  of \<open>null\<close> in \<open>isMatch\<close>, the \<open>SyntaxError\<close> of \<open>new RegExp\<close>, and an exception thrown
  by the translator or by the normaliser, known by a number.
\<close>

datatype error = InvalidInputKind | NullMatchTypeError | SyntaxError | Thrown nat

text \<open>
  The collaborators of \<open>index.js\<close> that are not defined in it. They are parameters of
  every definition below, and nothing is assumed of them.
  \<^item> \<open>expand\<close>: the glob translator \<open>lib/expand\<close>. It is given a glob and the options
    object; it throws (\<open>Inl\<close>) or returns the fragment \<open>parsed.glob\<close> and the flag
    \<open>parsed.negated\<close>, and in both cases it may have written to the options object: the
    second component is that object as the translator leaves it.
  \<^item> \<open>unixify\<close>: the path normaliser \<open>utils.unixify\<close> on a string; it throws or returns a
    string. \<open>unixify_other\<close> is the same function on a value that is not a string.
  \<^item> \<open>fileRe\<close>: \<open>fileRe().exec(fp)\<close> of the package \<open>filename-regex\<close>, \<open>None\<close> for the
    result \<open>null\<close> and otherwise element 0 of the match.
  \<^item> \<open>RegExp_ok\<close>: whether \<open>new RegExp(source, flags)\<close> constructs; it throws a
    \<open>SyntaxError\<close> otherwise.
  \<^item> \<open>re_test\<close>: \<open>pattern.test(v)\<close> of the regular expression engine, from the object
    (with its \<open>lastIndex\<close>) and the value tested to the result and the new \<open>lastIndex\<close>.
\<close>

record env =
  expand :: "string \<Rightarrow> obj \<Rightarrow> (nat + string \<times> bool) \<times> obj"
  unixify :: "string \<Rightarrow> obj \<Rightarrow> nat + string"
  unixify_other :: "jsval \<Rightarrow> obj \<Rightarrow> nat + jsval"
  fileRe :: "jsval \<Rightarrow> string option"
  RegExp_ok :: "string \<Rightarrow> string \<Rightarrow> bool"
  re_test :: "regexp \<Rightarrow> jsval \<Rightarrow> bool \<times> nat"

text \<open>
  The state: the option objects that exist (\<open>heap\<close>, by address, with \<open>nxt\<close> the next
  unused address), the regular expression objects that exist (\<open>regs\<close>, with \<open>nxt_re\<close>),
  and the three module variables \<open>globRe\<close>, \<open>cache\<close> and \<open>optsCache\<close> of the results
  cache. \<open>globRe\<close> and \<open>optsCache\<close> hold references, so that a later write to the object
  is seen through them. \<open>ncompiled\<close> is not a variable of the program: it counts the
  calls of the translator.
\<close>

record state =
  heap :: "nat \<Rightarrow> obj"
  nxt :: nat
  regs :: "nat \<Rightarrow> regexp"
  nxt_re :: nat
  globRe :: "nat option"
  cache :: "string option"
  optsCache :: "nat option"
  ncompiled :: nat

text \<open>\<open>options || {}\<close>: the object passed, or a new empty one.\<close>

definition opts_or_new :: "state \<Rightarrow> nat option \<Rightarrow> nat \<times> state" where
  "opts_or_new st options =
     (case options of
        Some a \<Rightarrow> (a, st)
      | None \<Rightarrow> (nxt st, st\<lparr>heap := (heap st)(nxt st := []), nxt := Suc (nxt st)\<rparr>))"

section \<open>The pattern compiler\<close>

definition wrapGlob :: "string \<Rightarrow> bool \<Rightarrow> string" where
  "wrapGlob glob negate =
     (let glob = ''(?:'' @ glob @ '')$''
      in ''^'' @ (if negate then ''(?!^'' @ glob @ '').*$'' else glob))"

text \<open>
  \<open>equal(a, b)\<close>. Both arguments are objects when \<open>makeRe\<close> calls it, so the guard
  \<open>if (!b) return false\<close> never fires; the loop runs over the properties of \<open>b\<close>.
\<close>

definition equal :: "obj \<Rightarrow> obj \<Rightarrow> bool" where
  "equal a b =
     list_all (\<lambda>prop. \<not> (\<not> hasOwnProperty a prop \<or> \<not> strict_eq (get_prop a prop) (get_prop b prop)))
       (map fst b)"

text \<open>
  \<open>makeRe(glob, options)\<close> is given in three parts, in the order of the source.
  \<open>reset_cache\<close> is the part up to the test of \<open>globRe\<close>: adopt the options as
  \<open>optsCache\<close> when there is none, drop the cached matcher when \<open>equal\<close> fails, adopt the
  glob as \<open>cache\<close> when there is none, and normalise the glob and drop the cached matcher
  when the glob differs from \<open>cache\<close>. It returns the glob to compile.
\<close>

definition reset_cache :: "env \<Rightarrow> state \<Rightarrow> string \<Rightarrow> nat \<Rightarrow> (error + string) \<times> state" where
  "reset_cache E st1 glob0 opts =
     (let oc = (case optsCache st1 of Some c \<Rightarrow> c | None \<Rightarrow> opts);
          st2 = st1\<lparr>optsCache := Some oc\<rparr>;
          st3 = (if \<not> equal (heap st2 oc) (heap st2 opts)
                 then st2\<lparr>cache := Some glob0, globRe := None\<rparr> else st2);
          st4 = st3\<lparr>cache := Some (case cache st3 of Some c \<Rightarrow> c | None \<Rightarrow> glob0)\<rparr>
      in if cache st4 \<noteq> Some glob0
         then (case unixify E glob0 (heap st4 opts) of
                 Inl k \<Rightarrow> (Inl (Thrown k), st4)
               | Inr g \<Rightarrow> (Inr g, st4\<lparr>cache := Some g, globRe := None\<rparr>))
         else (Inr glob0, st4))"

text \<open>
  The flags. \<open>opts.flags || ''\<close> is a string or another truthy value; \<open>flags += 'i'\<close>
  appends to a string and turns another value into its text followed by \<open>i\<close>. The text
  of \<open>true\<close>, of a number or of a plain object is no string of flags, with or without an
  \<open>i\<close>, so that \<open>new RegExp\<close> throws for it: \<open>None\<close> stands for such flags.
\<close>

definition flags_or_empty :: "obj \<Rightarrow> string option" where
  "flags_or_empty opts =
     (case get_prop opts ''flags'' of
        JStr s \<Rightarrow> Some s
      | v \<Rightarrow> if truthy v then None else Some [])"

text \<open>
  \<open>compile\<close> is the part after the test of \<open>globRe\<close>: add the flag \<open>i\<close> under
  \<open>nocase\<close>, translate, write \<open>opts.negated = opts.negated || parsed.negated || false\<close>,
  wrap, construct the regular expression and store it in \<open>globRe\<close>. An exception of
  the translator or of \<open>new RegExp\<close> leaves what was written before it.
\<close>

definition compile :: "env \<Rightarrow> state \<Rightarrow> string \<Rightarrow> nat \<Rightarrow> string option \<Rightarrow> (error + nat) \<times> state" where
  "compile E st glob opts flags0 =
     (let flags1 = (if truthy (get_prop (heap st opts) ''nocase'')
                    then map_option (\<lambda>s. s @ ''i'') flags0 else flags0);
          (out, ob1) = expand E glob (heap st opts);
          st1 = st\<lparr>heap := (heap st)(opts := ob1), ncompiled := Suc (ncompiled st)\<rparr>
      in case out of
           Inl k \<Rightarrow> (Inl (Thrown k), st1)
         | Inr parsed \<Rightarrow>
            (let old = get_prop ob1 ''negated'';
                 negated = (if truthy old then old else JBool (snd parsed));
                 st2 = st1\<lparr>heap := (heap st1)(opts := set_prop ob1 ''negated'' negated)\<rparr>;
                 src = wrapGlob (fst parsed) (truthy negated)
             in case flags1 of
                  None \<Rightarrow> (Inl SyntaxError, st2)
                | Some fl \<Rightarrow>
                    if RegExp_ok E src fl
                    then (Inr (nxt_re st2),
                          st2\<lparr>regs := (regs st2)(nxt_re st2 :=
                                         \<lparr>source = src, flags = fl, lastIndex = 0\<rparr>),
                               nxt_re := Suc (nxt_re st2), globRe := Some (nxt_re st2)\<rparr>)
                    else (Inl SyntaxError, st2)))"

definition makeRe :: "env \<Rightarrow> state \<Rightarrow> string \<Rightarrow> nat option \<Rightarrow> (error + nat) \<times> state" where
  "makeRe E st0 glob0 options =
     (let (opts, st1) = opts_or_new st0 options;
          flags0 = flags_or_empty (heap st1 opts)
      in case reset_cache E st1 glob0 opts of
           (Inl e, st5) \<Rightarrow> (Inl e, st5)
         | (Inr glob1, st5) \<Rightarrow>
            (case globRe st5 of
               Some r \<Rightarrow> (Inr r, st5)
             | None \<Rightarrow> compile E st5 glob1 opts flags0))"

section \<open>Matching\<close>

text \<open>
  An argument: an array, or a value that is not an array. The candidates of an array
  are values; the patterns of an array are strings.
\<close>

datatype 'a arg = Val jsval | Arr "'a list"

text \<open>\<open>!x\<close> for an argument: an array is never falsy.\<close>

fun falsy :: "'a arg \<Rightarrow> bool" where
  "falsy (Val v) = (\<not> truthy v)"
| "falsy (Arr xs) = False"

text \<open>\<open>typeof files !== 'string' && !Array.isArray(files)\<close>, the guard of \<open>match\<close>.\<close>

fun neither_string_nor_array :: "'a arg \<Rightarrow> bool" where
  "neither_string_nor_array (Val (JStr s)) = False"
| "neither_string_nor_array (Val v) = True"
| "neither_string_nor_array (Arr xs) = False"

text \<open>
  Modelled from the spec: \<open>utils.arrayify\<close> of \<open>lib/utils\<close>, which is not in \<open>index.js\<close>;
  it coerces a single value into a one-element sequence and leaves a sequence as it is.
\<close>

fun arrayify :: "jsval arg \<Rightarrow> jsval list" where
  "arrayify (Val v) = [v]"
| "arrayify (Arr xs) = xs"

text \<open>
  Modelled from the spec: \<open>diff\<close> of the package \<open>arr-diff\<close>, which is not in \<open>index.js\<close>;
  the elements of the first array, in order, that do not occur in the second, an element
  occurring when \<open>indexOf\<close> finds it, that is when it is \<open>===\<close> to an element.
\<close>

definition occurs :: "jsval \<Rightarrow> jsval list \<Rightarrow> bool" where
  "occurs x ys = list_ex (\<lambda>y. strict_eq y x) ys"

definition diff :: "jsval list \<Rightarrow> jsval list \<Rightarrow> jsval list" where
  "diff arr removed = filter (\<lambda>x. \<not> occurs x removed) arr"

text \<open>
  What \<open>match\<close> returns: an array of candidates, or under \<open>nonull\<close> the matcher, a
  regular expression object known by its address.
\<close>

datatype result = Matches "jsval list" | Pattern nat

datatype pat = PStr string | PRe nat

text \<open>\<open>pattern.charAt(0) === '!'\<close>, which is also \<open>glob.charCodeAt(0) === 33\<close>.\<close>

fun leading_bang :: "string \<Rightarrow> bool" where
  "leading_bang [] = False"
| "leading_bang (c # cs) = (c = CHR ''!'')"

text \<open>\<open>pattern.test(v)\<close> on the regular expression object at an address.\<close>

definition test :: "env \<Rightarrow> state \<Rightarrow> nat \<Rightarrow> jsval \<Rightarrow> bool \<times> state" where
  "test E st pattern v =
     (let (b, i) = re_test E (regs st pattern) v
      in (b, st\<lparr>regs := (regs st)(pattern := (regs st pattern)\<lparr>lastIndex := i\<rparr>)\<rparr>))"

definition isMatch :: "env \<Rightarrow> state \<Rightarrow> jsval \<Rightarrow> pat \<Rightarrow> nat option \<Rightarrow> (error + bool) \<times> state" where
  "isMatch E st0 fp pattern0 opts =
     (case (case pattern0 of PRe r \<Rightarrow> (Inr r, st0) | PStr g \<Rightarrow> makeRe E st0 g opts) of
        (Inl e, st1) \<Rightarrow> (Inl e, st1)
      | (Inr pattern, st1) \<Rightarrow>
         if (case opts of None \<Rightarrow> False
                        | Some a \<Rightarrow> truthy (get_prop (heap st1 a) ''matchBase''))
         then (case fileRe E fp of
                 None \<Rightarrow> (Inl NullMatchTypeError, st1)
               | Some m0 \<Rightarrow>
                   (let (b, st2) = test E st1 pattern (JStr m0)
                    in if b then (Inr True, st2)
                       else (let (b', st3) = test E st2 pattern fp in (Inr b', st3))))
         else (let (b, st2) = test E st1 pattern fp in (Inr b, st2)))"

text \<open>\<open>utils.unixify(file, opts)\<close> on a candidate.\<close>

definition unixify_val :: "env \<Rightarrow> jsval \<Rightarrow> obj \<Rightarrow> nat + jsval" where
  "unixify_val E v opts =
     (case v of
        JStr s \<Rightarrow> (case unixify E s opts of Inl k \<Rightarrow> Inl k | Inr s' \<Rightarrow> Inr (JStr s'))
      | _ \<Rightarrow> unixify_other E v opts)"

text \<open>The loop of \<open>match\<close> over the files, \<open>res\<close> being the array built so far.\<close>

fun match_loop ::
  "env \<Rightarrow> state \<Rightarrow> jsval list \<Rightarrow> nat \<Rightarrow> nat \<Rightarrow> jsval list \<Rightarrow> (error + jsval list) \<times> state" where
  "match_loop E st [] pattern opts res = (Inr res, st)"
| "match_loop E st (file # files) pattern opts res =
     (case unixify_val E file (heap st opts) of
        Inl k \<Rightarrow> (Inl (Thrown k), st)
      | Inr fp \<Rightarrow>
         (case isMatch E st fp (PRe pattern) (Some opts) of
            (Inl e, st') \<Rightarrow> (Inl e, st')
          | (Inr m, st') \<Rightarrow>
              if \<not> m then match_loop E st' files pattern opts res
              else match_loop E st' files pattern opts (res @ [fp])))"

text \<open>
  The variable \<open>negate\<close> of \<open>match\<close> and the pattern that is compiled: \<open>negate\<close>
  starts as \<open>opts.negate || false\<close>; unless \<open>opts.nonegate\<close> is \<open>true\<close> it is then
  assigned \<open>pattern.charAt(0) === '!'\<close>, and a leading \<open>!\<close> is cut off the pattern.
\<close>

definition negation :: "obj \<Rightarrow> string \<Rightarrow> bool \<times> string" where
  "negation opts pattern =
     (let negate = truthy (get_prop opts ''negate'')
      in if get_prop opts ''nonegate'' \<noteq> JBool True
         then (let negate = leading_bang pattern
               in (negate, if negate then drop 1 pattern else pattern))
         else (negate, pattern))"

text \<open>\<open>match(files, pattern, opts)\<close> for a pattern that is a string.\<close>

definition match ::
  "env \<Rightarrow> state \<Rightarrow> jsval arg \<Rightarrow> string \<Rightarrow> nat option \<Rightarrow> (error + result) \<times> state" where
  "match E st0 files0 pattern0 options =
     (if neither_string_nor_array files0 then (Inl InvalidInputKind, st0)
      else
       (let files = arrayify files0;
            (opts, st1) = opts_or_new st0 options;
            (negate, pattern1) = negation (heap st1 opts) pattern0
        in case makeRe E st1 pattern1 (Some opts) of
             (Inl e, st2) \<Rightarrow> (Inl e, st2)
           | (Inr pattern, st2) \<Rightarrow>
              (case match_loop E st2 files pattern opts [] of
                 (Inl e, st3) \<Rightarrow> (Inl e, st3)
               | (Inr res, st3) \<Rightarrow>
                   if negate then (Inr (Matches (diff files res)), st3)
                   else if truthy (get_prop (heap st3 opts) ''nonull'') \<and> res = []
                   then (Inr (Pattern pattern), st3)
                   else (Inr (Matches res), st3))))"

text \<open>
  \<open>push.apply(acc, r)\<close>: the elements of an array are appended; a regular expression
  has no \<open>length\<close>, so nothing is appended for it.
\<close>

fun spread :: "result \<Rightarrow> jsval list" where
  "spread (Matches xs) = xs"
| "spread (Pattern r) = []"

text \<open>The loop of \<open>micromatch\<close> over the patterns, with the arrays \<open>neg\<close> and \<open>res\<close>.\<close>

fun micromatch_loop ::
  "env \<Rightarrow> state \<Rightarrow> jsval list \<Rightarrow> nat \<Rightarrow> string list \<Rightarrow> jsval list \<Rightarrow> jsval list
     \<Rightarrow> (error + jsval list \<times> jsval list) \<times> state" where
  "micromatch_loop E st files opts [] neg res = (Inr (neg, res), st)"
| "micromatch_loop E st files opts (glob # globs) neg res =
     (if leading_bang glob
      then (case match E st (Arr files) (drop 1 glob) (Some opts) of
              (Inl e, st') \<Rightarrow> (Inl e, st')
            | (Inr r, st') \<Rightarrow> micromatch_loop E st' files opts globs (neg @ spread r) res)
      else (case match E st (Arr files) glob (Some opts) of
              (Inl e, st') \<Rightarrow> (Inl e, st')
            | (Inr r, st') \<Rightarrow> micromatch_loop E st' files opts globs neg (res @ spread r)))"

text \<open>
  \<open>micromatch(files, patterns, opts)\<close>. Patterns that are neither a string nor an
  array, and truthy, have no \<open>length\<close>: the loop is not entered.
\<close>

definition micromatch ::
  "env \<Rightarrow> state \<Rightarrow> jsval arg \<Rightarrow> string arg \<Rightarrow> nat option \<Rightarrow> (error + result) \<times> state" where
  "micromatch E st0 files0 patterns options =
     (if falsy files0 \<or> falsy patterns then (Inr (Matches []), st0)
      else
       (let files = arrayify files0;
            (opts, st1) = opts_or_new st0 options
        in case patterns of
             Val (JStr p) \<Rightarrow> match E st1 (Arr files) p (Some opts)
           | Val v \<Rightarrow> (Inr (Matches (diff [] [])), st1)
           | Arr ps \<Rightarrow>
               (case micromatch_loop E st1 files opts ps [] [] of
                  (Inl e, st2) \<Rightarrow> (Inl e, st2)
                | (Inr (neg, res), st2) \<Rightarrow> (Inr (Matches (diff res neg)), st2))))"

section \<open>Notions used to state the properties\<close>

text \<open>
  The outputs of the calls of \<open>match\<close> that \<open>micromatch\<close> makes for a list of patterns,
  one after the other on the state the previous one left, each pattern without its
  leading \<open>!\<close> if it has one; and the two accumulators as functions of these outputs.
\<close>

fun match_outputs ::
  "env \<Rightarrow> state \<Rightarrow> jsval list \<Rightarrow> nat \<Rightarrow> string list \<Rightarrow> (error + result list) \<times> state" where
  "match_outputs E st files opts [] = (Inr [], st)"
| "match_outputs E st files opts (glob # globs) =
     (case match E st (Arr files) (if leading_bang glob then drop 1 glob else glob) (Some opts) of
        (Inl e, st') \<Rightarrow> (Inl e, st')
      | (Inr r, st') \<Rightarrow>
          (case match_outputs E st' files opts globs of
             (Inl e, st'') \<Rightarrow> (Inl e, st'')
           | (Inr rs, st'') \<Rightarrow> (Inr (r # rs), st'')))"

definition positive_acc :: "string list \<Rightarrow> result list \<Rightarrow> jsval list" where
  "positive_acc globs outs =
     concat (map (\<lambda>(glob, r). if leading_bang glob then [] else spread r) (zip globs outs))"

definition negative_acc :: "string list \<Rightarrow> result list \<Rightarrow> jsval list" where
  "negative_acc globs outs =
     concat (map (\<lambda>(glob, r). if leading_bang glob then spread r else []) (zip globs outs))"

text \<open>
  An error that comes out of compiling a pattern: the \<open>SyntaxError\<close> of \<open>new RegExp\<close> or
  an exception of the translator or the normaliser.
\<close>

fun compile_error :: "error \<Rightarrow> bool" where
  "compile_error SyntaxError = True"
| "compile_error (Thrown k) = True"
| "compile_error e = False"

text \<open>
  A regular expression object is steady when \<open>test\<close> leaves its \<open>lastIndex\<close> as it is,
  whatever is tested: this is so for an object without the flags \<open>g\<close> and \<open>y\<close>.
\<close>

definition steady :: "env \<Rightarrow> regexp \<Rightarrow> bool" where
  "steady E r = (\<forall>v. snd (re_test E r v) = lastIndex r)"

section \<open>A concrete instance of the collaborators\<close>

text \<open>
  To run the definitions on concrete inputs the collaborators are instantiated for
  literal globs of letters and dots, on a platform whose separator is the slash and
  without the option \<open>normalize\<close>. The instance stands for the collaborators on such
  inputs only, and every general theorem is about an arbitrary \<open>env\<close>.
  \<^item> The translator passes a literal glob on as its own fragment; unless \<open>nonegate\<close> is
    \<open>true\<close> it cuts a leading \<open>!\<close> off and reports negation, as the comment of \<open>makeRe\<close>
    describes (``if the leading character in the glob is \<open>!\<close> a negation regex is
    returned''). It writes nothing.
  \<^item> The normaliser returns what it is given.
  \<^item> The constructor is decided for flags made of the letters \<open>g\<close>, \<open>i\<close>, \<open>m\<close>, \<open>u\<close>,
    \<open>y\<close>, which it accepts when no letter is repeated; no run below uses other flags.
  \<^item> The engine decides the two sources that \<open>wrapGlob\<close> produces around a fragment
    without metacharacters: the plain one accepts the text equal to the fragment, the
    negated one every other text. Both are anchored at the start, so that under \<open>g\<close> or
    \<open>y\<close> a test succeeds only from \<open>lastIndex\<close> 0, leaving \<open>lastIndex\<close> at the end of the
    text, and a failed test resets it to 0. Other flags are not interpreted, and the
    text of a number is not computed (it is taken to differ from the fragment).
  \<^item> The basename pattern gives the longest final segment of a string without a
    separator.
\<close>

fun strip_prefix :: "string \<Rightarrow> string \<Rightarrow> string option" where
  "strip_prefix [] s = Some s"
| "strip_prefix (p # ps) [] = None"
| "strip_prefix (p # ps) (c # cs) = (if p = c then strip_prefix ps cs else None)"

definition unwrap :: "string \<Rightarrow> string \<Rightarrow> string \<Rightarrow> string option" where
  "unwrap pre post s =
     (case strip_prefix pre s of
        None \<Rightarrow> None
      | Some r \<Rightarrow> map_option rev (strip_prefix (rev post) (rev r)))"

fun lit_text :: "jsval \<Rightarrow> string option" where
  "lit_text (JStr s) = Some s"
| "lit_text (JBool b) = Some (if b then ''true'' else ''false'')"
| "lit_text JNull = Some ''null''"
| "lit_text JUndefined = Some ''undefined''"
| "lit_text (JObj a) = Some ''[object Object]''"
| "lit_text (JNum w) = None"

definition lit_accepts :: "string \<Rightarrow> jsval \<Rightarrow> bool" where
  "lit_accepts src v =
     (case unwrap ''^(?!^(?:'' '')$).*$'' src of
        Some f \<Rightarrow> lit_text v \<noteq> Some f
      | None \<Rightarrow>
         (case unwrap ''^(?:'' '')$'' src of
            Some f \<Rightarrow> lit_text v = Some f
          | None \<Rightarrow> False))"

definition lit_test :: "regexp \<Rightarrow> jsval \<Rightarrow> bool \<times> nat" where
  "lit_test r v =
     (if CHR ''g'' \<in> set (flags r) \<or> CHR ''y'' \<in> set (flags r)
      then (if lastIndex r = 0 \<and> lit_accepts (source r) v
            then (True, case lit_text v of Some s \<Rightarrow> length s | None \<Rightarrow> 0)
            else (False, 0))
      else (lit_accepts (source r) v, lastIndex r))"

definition lit_RegExp_ok :: "string \<Rightarrow> string \<Rightarrow> bool" where
  "lit_RegExp_ok src fl = (distinct fl \<and> set fl \<subseteq> set ''gimuy'')"

definition lit_expand :: "string \<Rightarrow> obj \<Rightarrow> (nat + string \<times> bool) \<times> obj" where
  "lit_expand glob opts =
     (Inr (if leading_bang glob \<and> get_prop opts ''nonegate'' \<noteq> JBool True
           then (drop 1 glob, True) else (glob, False)),
      opts)"

definition basename_exec :: "jsval \<Rightarrow> string option" where
  "basename_exec v =
     (case lit_text v of
        None \<Rightarrow> None
      | Some fp \<Rightarrow>
         (let b = rev (takeWhile (\<lambda>c. c \<noteq> CHR ''/'' \<and> c \<noteq> CHR 0x5C) (rev fp))
          in if b = [] then None else Some b))"

definition lit_env :: env where
  "lit_env =
     \<lparr>expand = lit_expand, unixify = (\<lambda>fp opts. Inr fp), unixify_other = (\<lambda>v opts. Inr v),
      fileRe = basename_exec, RegExp_ok = lit_RegExp_ok, re_test = lit_test\<rparr>"

text \<open>
  The state of a freshly loaded module, in which the caller holds the option objects
  \<open>obs\<close> at the addresses \<open>0, 1, \<dots>\<close> and no regular expression exists.
\<close>

definition fresh :: "obj list \<Rightarrow> state" where
  "fresh obs =
     \<lparr>heap = (\<lambda>a. if a < length obs then obs ! a else []), nxt = length obs,
      regs = (\<lambda>a. \<lparr>source = [], flags = [], lastIndex = 0\<rparr>), nxt_re = 0,
      globRe = None, cache = None, optsCache = None, ncompiled = 0\<rparr>"

section \<open>Lemmas on values and option objects\<close>

lemma strict_eq_JStr [simp]: "strict_eq y (JStr s) = (y = JStr s)" "strict_eq (JStr s) y = (JStr s = y)"
  by (cases y; simp)+

lemma strict_eq_sym: "strict_eq a b = strict_eq b a"
  by (cases a; cases b; auto)

lemma occurs_JStr: "occurs (JStr s) ys = (JStr s \<in> set ys)"
  by (auto simp: occurs_def list_ex_iff)

lemma map_of_set_prop: "map_of (set_prop ob k v) = (map_of ob)(k \<mapsto> v)"
  by (simp add: set_prop_def update_conv')

lemma get_set_prop: "get_prop (set_prop ob k v) k' = (if k' = k then v else get_prop ob k')"
  by (simp add: get_prop_def map_of_set_prop)

lemma set_prop_same: "hasOwnProperty ob k \<Longrightarrow> set_prop ob k (get_prop ob k) = ob"
  by (auto simp: hasOwnProperty_def get_prop_def set_prop_def update_triv)

lemma truthy_has: "truthy (get_prop ob k) \<Longrightarrow> hasOwnProperty ob k"
  by (auto simp: hasOwnProperty_def get_prop_def split: option.splits)



lemma count_list_diff:
  "count_list (diff xs ys) x = (if occurs x ys then 0 else count_list xs x)"
  by (induction xs) (auto simp: diff_def)

lemma set_diff: "set (diff xs ys) = {x \<in> set xs. \<not> occurs x ys}"
  by (auto simp: diff_def)

lemma diff_Nil [simp]: "diff [] ys = []"
  by (simp add: diff_def)

section \<open>Lemmas on the pattern compiler\<close>

lemma opts_or_new_Some: "opts_or_new st (Some a) = (a, st)"
  by (simp add: opts_or_new_def)

lemma opts_or_new_None:
  "opts_or_new st None = (nxt st, st\<lparr>heap := (heap st)(nxt st := []), nxt := Suc (nxt st)\<rparr>)"
  by (simp add: opts_or_new_def)

lemma opts_or_new_fields:
  assumes "opts_or_new st options = (opts, st1)"
  shows "globRe st1 = globRe st \<and> cache st1 = cache st \<and> optsCache st1 = optsCache st
         \<and> ncompiled st1 = ncompiled st \<and> regs st1 = regs st \<and> nxt_re st1 = nxt_re st"
  using assms by (auto simp: opts_or_new_def split: option.splits)

lemma reset_cache_frame:
  assumes "reset_cache E st glob a = (out, st')"
  shows "heap st' = heap st \<and> nxt st' = nxt st \<and> ncompiled st' = ncompiled st
         \<and> regs st' = regs st \<and> nxt_re st' = nxt_re st"
  using assms by (auto simp: reset_cache_def Let_def split: if_splits sum.splits)

lemma reset_cache_error:
  assumes "reset_cache E st glob a = (Inl e, st')"
  shows "\<exists>k. e = Thrown k \<and> unixify E glob (heap st a) = Inl k"
  using assms by (auto simp: reset_cache_def Let_def split: if_splits sum.splits)

lemma reset_cache_glob:
  assumes "reset_cache E st glob a = (Inr g, st')"
  shows "g = glob \<or> unixify E glob (heap st a) = Inr g"
  using assms by (auto simp: reset_cache_def Let_def split: if_splits sum.splits)




lemma compile_cases:
  assumes "compile E st g a fl = (out, st')" and "expand E g (heap st a) = (pout, ob1)"
  shows "ncompiled st' = Suc (ncompiled st) \<and> nxt st' = nxt st
       \<and> (\<forall>b. b \<noteq> a \<longrightarrow> heap st' b = heap st b)
       \<and> cache st' = cache st \<and> optsCache st' = optsCache st
       \<and> (case pout of
            Inl k \<Rightarrow> out = Inl (Thrown k) \<and> heap st' a = ob1 \<and> regs st' = regs st
                     \<and> globRe st' = globRe st \<and> nxt_re st' = nxt_re st
          | Inr parsed \<Rightarrow>
              heap st' a = set_prop ob1 ''negated''
                 (if truthy (get_prop ob1 ''negated'') then get_prop ob1 ''negated''
                  else JBool (snd parsed))
              \<and> (case out of
                   Inl e \<Rightarrow> e = SyntaxError \<and> regs st' = regs st \<and> globRe st' = globRe st
                            \<and> nxt_re st' = nxt_re st
                 | Inr re \<Rightarrow> re = nxt_re st \<and> globRe st' = Some re \<and> nxt_re st' = Suc re
                     \<and> source (regs st' re)
                         = wrapGlob (fst parsed) (truthy (get_prop ob1 ''negated'') \<or> snd parsed)
                     \<and> lastIndex (regs st' re) = 0
                     \<and> (\<forall>b. b \<noteq> re \<longrightarrow> regs st' b = regs st b)))"
  using assms
  by (auto simp: compile_def Let_def split: sum.splits option.splits if_splits)

lemma compile_error: "fst (compile E st g a fl) = Inl e \<Longrightarrow> compile_error e"
  by (auto simp: compile_def Let_def split: sum.splits option.splits if_splits prod.splits)

lemma makeRe_unfold:
  assumes "opts_or_new st options = (opts, st1)" and "reset_cache E st1 glob opts = (out, st5)"
  shows "makeRe E st glob options =
     (case out of
        Inl e \<Rightarrow> (Inl e, st5)
      | Inr g \<Rightarrow> (case globRe st5 of
                    Some r \<Rightarrow> (Inr r, st5)
                  | None \<Rightarrow> compile E st5 g opts (flags_or_empty (heap st1 opts))))"
  using assms by (simp add: makeRe_def split: sum.splits)

lemma makeRe_error: "fst (makeRe E st glob options) = Inl e \<Longrightarrow> compile_error e"
proof -
  assume a: "fst (makeRe E st glob options) = Inl e"
  obtain opts st1 where o: "opts_or_new st options = (opts, st1)" by (cases "opts_or_new st options")
  obtain out st5 where rc: "reset_cache E st1 glob opts = (out, st5)"
    by (cases "reset_cache E st1 glob opts")
  show ?thesis
  proof (cases out)
    case (Inl e')
    with a makeRe_unfold[OF o rc] reset_cache_error[of E st1 glob opts e' st5] rc
    show ?thesis by auto
  next
    case (Inr g)
    with a makeRe_unfold[OF o rc] compile_error[of E st5 g opts _ e]
    show ?thesis by (auto split: option.splits)
  qed
qed


lemma makeRe_Some_cases:
  assumes "makeRe E st glob (Some a) = (out, st')"
  shows "(heap st' = heap st \<and> ncompiled st' = ncompiled st)
       \<or> (\<exists>g st5. (g = glob \<or> unixify E glob (heap st a) = Inr g)
             \<and> heap st5 = heap st \<and> ncompiled st5 = ncompiled st \<and> regs st5 = regs st
             \<and> nxt_re st5 = nxt_re st
             \<and> compile E st5 g a (flags_or_empty (heap st a)) = (out, st'))"
proof -
  obtain o5 st5 where rc: "reset_cache E st glob a = (o5, st5)"
    by (cases "reset_cache E st glob a")
  note u = makeRe_unfold[OF opts_or_new_Some rc]
  note fr = reset_cache_frame[OF rc]
  show ?thesis
  proof (cases o5)
    case (Inl e)
    with u assms fr show ?thesis by simp
  next
    case (Inr g)
    show ?thesis
    proof (cases "globRe st5")
      case (Some r)
      with u assms fr Inr show ?thesis by simp
    next
      case None
      have "g = glob \<or> unixify E glob (heap st a) = Inr g"
        using reset_cache_glob[of E st glob a g st5] rc Inr by simp
      moreover have "compile E st5 g a (flags_or_empty (heap st a)) = (out, st')"
        using u assms Inr None by simp
      ultimately show ?thesis using fr by blast
    qed
  qed
qed

lemma makeRe_keeps_prop:
  assumes "makeRe E st g (Some a) = (out, st1)"
    and "\<forall>g ob. get_prop (snd (expand E g ob)) k = get_prop ob k" and "k \<noteq> ''negated''"
  shows "get_prop (heap st1 a) k = get_prop (heap st a) k"
proof -
  from makeRe_Some_cases[OF assms(1)]
  consider (same) "heap st1 = heap st"
    | (comp) g' st5 where "heap st5 = heap st"
        "compile E st5 g' a (flags_or_empty (heap st a)) = (out, st1)"
    by blast
  then show ?thesis
  proof cases
    case same
    then show ?thesis by simp
  next
    case comp
    obtain pout ob1 where ex: "expand E g' (heap st5 a) = (pout, ob1)"
      by (cases "expand E g' (heap st5 a)")
    have ob: "get_prop ob1 k = get_prop (heap st a) k"
      using assms(2) ex comp(1) by (metis snd_conv)
    from compile_cases[OF comp(2) ex] ob assms(3) show ?thesis
      by (cases pout) (simp_all add: get_set_prop)
  qed
qed

lemma compile_provenance:
  assumes "compile E st g a fl = (Inl e, st')"
  shows "(e = SyntaxError \<and> (fl = None \<or> (\<exists>src f. \<not> RegExp_ok E src f)))
       \<or> (\<exists>k ob. e = Thrown k \<and> fst (expand E g ob) = Inl k)"
proof -
  obtain pout ob1 where ex: "expand E g (heap st a) = (pout, ob1)"
    by (cases "expand E g (heap st a)")
  show ?thesis
  proof (cases pout)
    case (Inl k)
    then have "e = Thrown k" using assms ex by (simp add: compile_def Let_def)
    moreover have "fst (expand E g (heap st a)) = Inl k" using ex Inl by simp
    ultimately show ?thesis by blast
  next
    case (Inr parsed)
    with assms ex have "e = SyntaxError \<and> (fl = None \<or> (\<exists>src f. \<not> RegExp_ok E src f))"
      by (auto simp: compile_def Let_def split: option.splits if_splits)
    then show ?thesis by blast
  qed
qed

lemma makeRe_provenance:
  assumes "opts_or_new st options = (opts, st1)" and "makeRe E st glob options = (Inl e, st')"
  shows "(e = SyntaxError \<and> (flags_or_empty (heap st1 opts) = None \<or> (\<exists>src f. \<not> RegExp_ok E src f)))
       \<or> (\<exists>k. e = Thrown k \<and> ((\<exists>g ob. fst (expand E g ob) = Inl k) \<or> (\<exists>s ob. unixify E s ob = Inl k)))"
proof -
  obtain out st5 where rc: "reset_cache E st1 glob opts = (out, st5)"
    by (cases "reset_cache E st1 glob opts")
  note u = makeRe_unfold[OF assms(1) rc]
  show ?thesis
  proof (cases out)
    case (Inl e')
    with u assms(2) reset_cache_error[of E st1 glob opts e' st5] rc show ?thesis by auto
  next
    case (Inr g)
    with u assms(2) have "compile E st5 g opts (flags_or_empty (heap st1 opts)) = (Inl e, st')"
      by (auto split: option.splits)
    from compile_provenance[OF this] show ?thesis by blast
  qed
qed

section \<open>Lemmas on matching\<close>

lemma test_frame:
  assumes "test E st a v = (b, st')"
  shows "heap st' = heap st \<and> nxt st' = nxt st \<and> nxt_re st' = nxt_re st \<and> globRe st' = globRe st
         \<and> cache st' = cache st \<and> optsCache st' = optsCache st \<and> ncompiled st' = ncompiled st"
  using assms by (auto simp: test_def split: prod.splits)

lemma test_steady:
  assumes "steady E (regs st a)"
  shows "test E st a v = (fst (re_test E (regs st a) v), st)"
proof -
  have "snd (re_test E (regs st a) v) = lastIndex (regs st a)"
    using assms by (simp add: steady_def)
  then show ?thesis by (simp add: test_def split_beta)
qed

lemma isMatch_PRe_frame:
  assumes "isMatch E st fp (PRe a) opts = (out, st')"
  shows "heap st' = heap st \<and> nxt st' = nxt st \<and> nxt_re st' = nxt_re st \<and> globRe st' = globRe st
         \<and> cache st' = cache st \<and> optsCache st' = optsCache st \<and> ncompiled st' = ncompiled st"
proof -
  have t: "heap (snd (test E s a v)) = heap s \<and> nxt (snd (test E s a v)) = nxt s
        \<and> nxt_re (snd (test E s a v)) = nxt_re s \<and> globRe (snd (test E s a v)) = globRe s
        \<and> cache (snd (test E s a v)) = cache s \<and> optsCache (snd (test E s a v)) = optsCache s
        \<and> ncompiled (snd (test E s a v)) = ncompiled s" for s v
    using test_frame[of E s a v] by (cases "test E s a v") auto
  show ?thesis
    using assms t
    by (auto simp: isMatch_def Let_def split_beta split: if_splits option.splits)
qed

lemma isMatch_PRe_error:
  assumes "isMatch E st fp (PRe a) (Some opts) = (Inl e, st')"
  shows "e = NullMatchTypeError \<and> truthy (get_prop (heap st opts) ''matchBase'') \<and> fileRe E fp = None"
  using assms by (auto simp: isMatch_def Let_def split_beta split: if_splits option.splits)

lemma isMatch_PRe_steady:
  assumes "steady E (regs st a)"
  shows "snd (isMatch E st fp (PRe a) opts) = st"
  using assms by (simp add: isMatch_def Let_def test_steady split: option.splits)

lemma match_loop_frame:
  "match_loop E st files a opts res = (out, st') \<Longrightarrow>
     heap st' = heap st \<and> nxt st' = nxt st \<and> nxt_re st' = nxt_re st \<and> globRe st' = globRe st
     \<and> cache st' = cache st \<and> optsCache st' = optsCache st \<and> ncompiled st' = ncompiled st"
proof (induction files arbitrary: st res)
  case Nil
  then show ?case by simp
next
  case (Cons f fs)
  show ?case
  proof (cases "unixify_val E f (heap st opts)")
    case (Inl k)
    with Cons.prems show ?thesis by simp
  next
    case (Inr fp)
    obtain o1 s1 where im: "isMatch E st fp (PRe a) (Some opts) = (o1, s1)"
      by (cases "isMatch E st fp (PRe a) (Some opts)")
    note fr = isMatch_PRe_frame[OF im]
    show ?thesis
    proof (cases o1)
      case (Inl e)
      with Cons.prems Inr im fr show ?thesis by simp
    next
      case (Inr m)
      with Cons.prems \<open>unixify_val E f (heap st opts) = Inr fp\<close> im
      have "match_loop E s1 fs a opts (if m then res @ [fp] else res) = (out, st')"
        by (simp split: if_splits)
      from Cons.IH[OF this] fr show ?thesis by simp
    qed
  qed
qed

lemma match_loop_error:
  "match_loop E st files a opts res = (Inl e, st') \<Longrightarrow>
     (e = NullMatchTypeError \<and> truthy (get_prop (heap st opts) ''matchBase''))
     \<or> (\<exists>k f. e = Thrown k \<and> f \<in> set files \<and> unixify_val E f (heap st opts) = Inl k)"
proof (induction files arbitrary: st res)
  case Nil
  then show ?case by simp
next
  case (Cons f fs)
  show ?case
  proof (cases "unixify_val E f (heap st opts)")
    case (Inl k)
    with Cons.prems show ?thesis by auto
  next
    case (Inr fp)
    obtain o1 s1 where im: "isMatch E st fp (PRe a) (Some opts) = (o1, s1)"
      by (cases "isMatch E st fp (PRe a) (Some opts)")
    have h: "heap s1 = heap st" using isMatch_PRe_frame[OF im] by simp
    show ?thesis
    proof (cases o1)
      case (Inl e')
      with Cons.prems Inr im isMatch_PRe_error[of E st fp a opts e' s1] show ?thesis by simp
    next
      case (Inr m)
      with Cons.prems \<open>unixify_val E f (heap st opts) = Inr fp\<close> im
      have "match_loop E s1 fs a opts (if m then res @ [fp] else res) = (Inl e, st')"
        by (simp split: if_splits)
      from Cons.IH[OF this] h show ?thesis by auto
    qed
  qed
qed


lemma match_loop_steady:
  assumes "steady E (regs st a)"
  shows "match_loop E st files a opts res = (Inr res', st') \<Longrightarrow>
     st' = st
     \<and> (\<exists>fps. map (\<lambda>f. unixify_val E f (heap st opts)) files = map Inr fps
            \<and> res' = res @ filter (\<lambda>fp. fst (isMatch E st fp (PRe a) (Some opts)) = Inr True) fps)"
proof (induction files arbitrary: res)
  case Nil
  then show ?case by simp
next
  case (Cons f fs)
  show ?case
  proof (cases "unixify_val E f (heap st opts)")
    case (Inl k)
    with Cons.prems show ?thesis by simp
  next
    case (Inr fp)
    obtain o1 where im: "isMatch E st fp (PRe a) (Some opts) = (o1, st)"
      using isMatch_PRe_steady[OF assms, of fp "Some opts"]
      by (cases "isMatch E st fp (PRe a) (Some opts)") auto
    show ?thesis
    proof (cases o1)
      case (Inl e')
      with Cons.prems Inr im show ?thesis by simp
    next
      case (Inr m)
      with Cons.prems \<open>unixify_val E f (heap st opts) = Inr fp\<close> im
      have "match_loop E st fs a opts (if m then res @ [fp] else res) = (Inr res', st')"
        by (simp split: if_splits)
      from Cons.IH[OF this] obtain fps where
        0: "st' = st"
        and 1: "map (\<lambda>f. unixify_val E f (heap st opts)) fs = map Inr fps"
        and 2: "res' = (if m then res @ [fp] else res)
                  @ filter (\<lambda>fp. fst (isMatch E st fp (PRe a) (Some opts)) = Inr True) fps"
        by auto
      have "map (\<lambda>f. unixify_val E f (heap st opts)) (f # fs) = map Inr (fp # fps)"
        using 1 \<open>unixify_val E f (heap st opts) = Inr fp\<close> by simp
      moreover have "res' = res @ filter (\<lambda>fp. fst (isMatch E st fp (PRe a) (Some opts)) = Inr True) (fp # fps)"
        using 2 im Inr by simp
      ultimately show ?thesis using 0 by blast
    qed
  qed
qed

lemma match_unfold:
  assumes "\<not> neither_string_nor_array files" and "opts_or_new st options = (opts, st1)"
    and "makeRe E st1 (snd (negation (heap st1 opts) p)) (Some opts) = (out, st2)"
  shows "match E st files p options =
     (case out of
        Inl e \<Rightarrow> (Inl e, st2)
      | Inr re \<Rightarrow>
         (case match_loop E st2 (arrayify files) re opts [] of
            (Inl e, st3) \<Rightarrow> (Inl e, st3)
          | (Inr res, st3) \<Rightarrow>
              (Inr (if fst (negation (heap st1 opts) p) then Matches (diff (arrayify files) res)
                    else if truthy (get_prop (heap st3 opts) ''nonull'') \<and> res = []
                    then Pattern re else Matches res), st3)))"
  using assms
  by (simp add: match_def Let_def split_beta split: sum.splits prod.splits)

lemma match_no_files:
  assumes "opts_or_new st options = (opts, st1)"
    and "makeRe E st1 (snd (negation (heap st1 opts) p)) (Some opts) = (out, st2)"
  shows "match E st (Arr []) p options =
     (case out of
        Inl e \<Rightarrow> (Inl e, st2)
      | Inr re \<Rightarrow>
          (Inr (if fst (negation (heap st1 opts) p) then Matches []
                else if truthy (get_prop (heap st2 opts) ''nonull'') then Pattern re
                else Matches []), st2))"
proof -
  have "\<not> neither_string_nor_array (Arr [] :: jsval arg)" by simp
  from match_unfold[OF this assms] show ?thesis by (simp split: sum.splits)
qed

lemma unixify_val_provenance:
  "unixify_val E v ob = Inl k \<Longrightarrow> (\<exists>s. unixify E s ob = Inl k) \<or> unixify_other E v ob = Inl k"
  by (auto simp: unixify_val_def split: jsval.splits sum.splits)


section \<open>Lemmas on the resolver\<close>

lemma micromatch_loop_outputs:
  "micromatch_loop E st files opts globs neg res =
     (case match_outputs E st files opts globs of
        (Inl e, st') \<Rightarrow> (Inl e, st')
      | (Inr outs, st') \<Rightarrow>
          (Inr (neg @ negative_acc globs outs, res @ positive_acc globs outs), st'))"
proof (induction globs arbitrary: st neg res)
  case Nil
  show ?case by (simp add: negative_acc_def positive_acc_def)
next
  case (Cons glob globs)
  show ?case
    by (simp add: Cons.IH negative_acc_def positive_acc_def split: prod.splits sum.splits)
qed

lemma micromatch_Arr:
  assumes "\<not> falsy files" and "opts_or_new st options = (opts, st1)"
  shows "micromatch E st files (Arr globs) options =
     (case match_outputs E st1 (arrayify files) opts globs of
        (Inl e, st2) \<Rightarrow> (Inl e, st2)
      | (Inr outs, st2) \<Rightarrow>
          (Inr (Matches (diff (positive_acc globs outs) (negative_acc globs outs))), st2))"
  using assms
  by (simp add: micromatch_def micromatch_loop_outputs split: prod.splits sum.splits)

lemma in_positive_acc:
  "x \<in> set (positive_acc globs outs) \<longleftrightarrow>
     (\<exists>(g, r) \<in> set (zip globs outs). \<not> leading_bang g \<and> x \<in> set (spread r))"
  by (auto simp: positive_acc_def split: if_splits)

lemma in_negative_acc:
  "x \<in> set (negative_acc globs outs) \<longleftrightarrow>
     (\<exists>(g, r) \<in> set (zip globs outs). leading_bang g \<and> x \<in> set (spread r))"
  by (auto simp: negative_acc_def split: if_splits)

lemma occurs_set: "set ys = set zs \<Longrightarrow> occurs x ys = occurs x zs"
  by (simp add: occurs_def list_ex_iff)

lemma match_outputs_no_files:
  "case fst (match_outputs E st [] opts globs) of
     Inl e \<Rightarrow> compile_error e
   | Inr outs \<Rightarrow> \<forall>r \<in> set outs. spread r = []"
proof (induction globs arbitrary: st)
  case Nil
  then show ?case by auto
next
  case (Cons glob globs)
  let ?p = "if leading_bang glob then drop 1 glob else glob"
  obtain o1 s1 where mk: "makeRe E st (snd (negation (heap st opts) ?p)) (Some opts) = (o1, s1)"
    by (cases "makeRe E st (snd (negation (heap st opts) ?p)) (Some opts)")
  note m = match_no_files[OF opts_or_new_Some mk]
  show ?case
  proof (cases o1)
    case (Inl e)
    have "fst (makeRe E st (snd (negation (heap st opts) ?p)) (Some opts)) = Inl e"
      using mk Inl by simp
    then have "compile_error e" by (rule makeRe_error)
    with Inl m show ?thesis by auto
  next
    case (Inr re)
    obtain o2 s2 where mo: "match_outputs E s1 [] opts globs = (o2, s2)"
      by (cases "match_outputs E s1 [] opts globs")
    from Cons.IH[of s1] Inr m mo show ?thesis
      by (auto split: sum.splits if_splits)
  qed
qed

lemma positive_acc_empty:
  "\<forall>r \<in> set outs. spread r = [] \<Longrightarrow> positive_acc globs outs = []"
  by (auto simp: positive_acc_def dest: set_zip_rightD)

section \<open>The resolver: accumulation and difference\<close>

text \<open>
  Claim C1. For candidates that are not absent, a list of patterns and any options,
  \<open>micromatch\<close> calls \<open>match\<close> once per pattern, in order, each call on the state the
  previous one left; the output of a pattern that starts with \<open>!\<close>, matched without
  that \<open>!\<close>, goes to the negative accumulator and the output of any other pattern to
  the positive one, and the result is the positive accumulator without every element
  that occurs in the negative one: such an element is absent from the result however
  often it occurs on either side, and every other element occurs as often as in the
  positive accumulator. An element occurs in an array when it is \<open>===\<close> to one of its
  elements, which for a string is to be a member of it. If one of the calls of
  \<open>match\<close> fails, \<open>micromatch\<close> fails with the same error.
\<close>

theorem micromatch_difference:
  assumes "\<not> falsy files" and "opts_or_new st options = (opts, st1)"
  shows "case match_outputs E st1 (arrayify files) opts globs of
           (Inl e, st2) \<Rightarrow> micromatch E st files (Arr globs) options = (Inl e, st2)
         | (Inr outs, st2) \<Rightarrow>
             (\<exists>r. micromatch E st files (Arr globs) options = (Inr (Matches r), st2)
                \<and> r = diff (positive_acc globs outs) (negative_acc globs outs)
                \<and> (\<forall>x. count_list r x =
                        (if occurs x (negative_acc globs outs) then 0
                         else count_list (positive_acc globs outs) x))
                \<and> (\<forall>s. count_list r (JStr s) =
                        (if JStr s \<in> set (negative_acc globs outs) then 0
                         else count_list (positive_acc globs outs) (JStr s))))"
  by (simp add: micromatch_Arr[OF assms] count_list_diff occurs_JStr split: prod.splits sum.splits)

text \<open>
  An instance: the candidates \<open>a.js\<close>, \<open>b.txt\<close>, \<open>c.js\<close> and the patterns \<open>a.js\<close>,
  \<open>c.js\<close>, \<open>!a.js\<close> give \<open>c.js\<close>.
\<close>

theorem micromatch_difference_witness:
  "\<not> falsy (Arr [JStr ''a.js'', JStr ''b.txt'', JStr ''c.js''])
   \<and> fst (micromatch lit_env (fresh []) (Arr [JStr ''a.js'', JStr ''b.txt'', JStr ''c.js''])
            (Arr [''a.js'', ''c.js'', ''!a.js'']) None) = Inr (Matches [JStr ''c.js''])"
proof -
  let ?files = "Arr [JStr ''a.js'', JStr ''b.txt'', JStr ''c.js'']"
  let ?globs = "[''a.js'', ''c.js'', ''!a.js'']"
  let ?outs = "[Matches [JStr ''a.js''], Matches [JStr ''c.js''], Matches [JStr ''a.js'']]"
  let ?st1 = "snd (opts_or_new (fresh []) None)"
  have h1: "\<not> falsy ?files" by simp
  have h2: "opts_or_new (fresh []) None = (0, ?st1)" by (simp add: opts_or_new_def fresh_def)
  have outs: "fst (match_outputs lit_env ?st1 (arrayify ?files) 0 ?globs) = Inr ?outs"
    by code_simp
  obtain st2 where mo: "match_outputs lit_env ?st1 (arrayify ?files) 0 ?globs = (Inr ?outs, st2)"
    using outs by (cases "match_outputs lit_env ?st1 (arrayify ?files) 0 ?globs") auto
  have "fst (micromatch lit_env (fresh []) ?files (Arr ?globs) None)
          = Inr (Matches (diff (positive_acc ?globs ?outs) (negative_acc ?globs ?outs)))"
    using micromatch_difference[OF h1 h2, of lit_env ?globs] mo by auto
  moreover have "diff (positive_acc ?globs ?outs) (negative_acc ?globs ?outs) = [JStr ''c.js'']"
    by code_simp
  ultimately show ?thesis by simp
qed

section \<open>The results cache of makeRe\<close>




section \<open>The resolver: order of the patterns\<close>

text \<open>
  Claim C3, as the code has it. Take candidates that are not absent and two lists of
  patterns for which every call of \<open>match\<close> that \<open>micromatch\<close> makes succeeds. If the
  two lists pair the same patterns with the same outputs of \<open>match\<close>, each pair as
  often in one list as in the other (so that one list is a permutation of the other and
  every pattern has received the same output in both orders), then \<open>micromatch\<close>
  returns arrays with the same set of elements for both: the accumulation is
  commutative. The output of \<open>match\<close> for a pattern can depend on the patterns compiled
  before it, through the options object and the cache, so the proviso is needed.
\<close>

theorem micromatch_permuted:
  assumes "\<not> falsy files" and "opts_or_new st options = (opts, st1)"
    and "match_outputs E st1 (arrayify files) opts globs = (Inr outs, st2)"
    and "match_outputs E st1 (arrayify files) opts globs' = (Inr outs', st2')"
    and "mset (zip globs outs) = mset (zip globs' outs')"
  shows "\<exists>r r'. fst (micromatch E st files (Arr globs) options) = Inr (Matches r)
               \<and> fst (micromatch E st files (Arr globs') options) = Inr (Matches r')
               \<and> set r = set r'"
proof -
  have z: "set (zip globs outs) = set (zip globs' outs')"
    using assms(5) by (metis set_mset_mset)
  have p: "set (positive_acc globs outs) = set (positive_acc globs' outs')"
    and n: "set (negative_acc globs outs) = set (negative_acc globs' outs')"
    unfolding set_eq_iff in_positive_acc in_negative_acc z by simp_all
  have "set (diff (positive_acc globs outs) (negative_acc globs outs))
      = set (diff (positive_acc globs' outs') (negative_acc globs' outs'))"
    using p occurs_set[OF n] by (simp add: set_diff)
  then show ?thesis
    by (simp add: micromatch_Arr[OF assms(1,2)] assms(3,4))
qed

text \<open>
  An instance: the patterns \<open>a\<close>, \<open>!b\<close> in both orders on the candidates \<open>a\<close>, \<open>b\<close>.
\<close>

theorem micromatch_permuted_witness:
  "\<not> falsy (Arr [JStr ''a'', JStr ''b''])
   \<and> mset (zip [''a'', ''!b''] [Matches [JStr ''a''], Matches [JStr ''b'']])
       = mset (zip [''!b'', ''a''] [Matches [JStr ''b''], Matches [JStr ''a'']])
   \<and> (\<exists>r r'. fst (micromatch lit_env (fresh []) (Arr [JStr ''a'', JStr ''b'']) (Arr [''a'', ''!b'']) None)
                 = Inr (Matches r)
             \<and> fst (micromatch lit_env (fresh []) (Arr [JStr ''a'', JStr ''b'']) (Arr [''!b'', ''a'']) None)
                 = Inr (Matches r')
             \<and> set r = set r')"
proof -
  let ?files = "Arr [JStr ''a'', JStr ''b'']"
  let ?st1 = "snd (opts_or_new (fresh []) None)"
  have h1: "\<not> falsy ?files" by simp
  have h2: "opts_or_new (fresh []) None = (0, ?st1)" by (simp add: opts_or_new_def fresh_def)
  have o1: "fst (match_outputs lit_env ?st1 (arrayify ?files) 0 [''a'', ''!b''])
              = Inr [Matches [JStr ''a''], Matches [JStr ''b'']]"
    by code_simp
  have o2: "fst (match_outputs lit_env ?st1 (arrayify ?files) 0 [''!b'', ''a''])
              = Inr [Matches [JStr ''b''], Matches [JStr ''a'']]"
    by code_simp
  have h3: "match_outputs lit_env ?st1 (arrayify ?files) 0 [''a'', ''!b'']
              = (Inr [Matches [JStr ''a''], Matches [JStr ''b'']],
                 snd (match_outputs lit_env ?st1 (arrayify ?files) 0 [''a'', ''!b'']))"
    using o1 by (simp add: prod_eq_iff)
  have h4: "match_outputs lit_env ?st1 (arrayify ?files) 0 [''!b'', ''a'']
              = (Inr [Matches [JStr ''b''], Matches [JStr ''a'']],
                 snd (match_outputs lit_env ?st1 (arrayify ?files) 0 [''!b'', ''a'']))"
    using o2 by (simp add: prod_eq_iff)
  have h5: "mset (zip [''a'', ''!b''] [Matches [JStr ''a''], Matches [JStr ''b'']])
              = mset (zip [''!b'', ''a''] [Matches [JStr ''b''], Matches [JStr ''a'']])"
    by (simp add: add_mset_commute)
  show ?thesis
    using micromatch_permuted[OF h1 h2 h3 h4 h5] h1 h5 by blast
qed

text \<open>
  Without the proviso the order matters. On the candidates \<open>a\<close>, \<open>b\<close> and without
  options, the patterns \<open>!!!a\<close>, \<open>b\<close> give the empty array and the patterns \<open>b\<close>,
  \<open>!!!a\<close> give \<open>b\<close>. \<open>micromatch\<close> and \<open>match\<close> each cut one \<open>!\<close> off \<open>!!!a\<close>, and the
  translator is given \<open>!a\<close> and reports negation, so that \<open>makeRe\<close> sets \<open>negated\<close>
  on the options object that all the patterns share; \<open>b\<close> is compiled to a negated
  matcher when it comes after that and to a plain one when it comes before.
\<close>

theorem micromatch_order_counterexample:
  "mset [''!!!a'', ''b''] = mset [''b'', ''!!!a'']
   \<and> fst (micromatch lit_env (fresh []) (Arr [JStr ''a'', JStr ''b'']) (Arr [''!!!a'', ''b'']) None)
       = Inr (Matches [])
   \<and> fst (micromatch lit_env (fresh []) (Arr [JStr ''a'', JStr ''b'']) (Arr [''b'', ''!!!a'']) None)
       = Inr (Matches [JStr ''b''])"
proof -
  have 1: "fst (micromatch lit_env (fresh []) (Arr [JStr ''a'', JStr ''b'']) (Arr [''!!!a'', ''b'']) None)
       = Inr (Matches [])"
    by code_simp
  have 2: "fst (micromatch lit_env (fresh []) (Arr [JStr ''a'', JStr ''b'']) (Arr [''b'', ''!!!a'']) None)
       = Inr (Matches [JStr ''b''])"
    by code_simp
  have 3: "mset [''!!!a'', ''b''] = mset [''b'', ''!!!a'']" by (simp add: add_mset_commute)
  from 1 2 3 show ?thesis by blast
qed

section \<open>The option negate\<close>

text \<open>
  Claim C4, as the code has it. Take candidates that are a string or an array, a pattern
  that does not start with \<open>!\<close>, and a call of \<open>match\<close> in which compiling the pattern
  succeeds and no test of a candidate fails; let \<open>res\<close> be the array of the normalised
  candidates that the loop accepts.
  \<^item> If \<open>nonegate\<close> is \<open>true\<close> and \<open>negate\<close> is truthy, \<open>match\<close> returns the candidates
    that do not occur in \<open>res\<close>: negated matching.
  \<^item> Otherwise, and so whenever \<open>nonegate\<close> is false or absent, \<open>negate\<close> is ignored:
    \<open>match\<close> returns \<open>res\<close>, or the matcher when \<open>nonull\<close> is set and \<open>res\<close> is empty.
  \<^item> If the matcher is steady (it has neither the flag \<open>g\<close> nor \<open>y\<close>), \<open>res\<close> consists
    of exactly the normalised candidates for which \<open>isMatch\<close> holds.
\<close>

theorem match_negate_option:
  assumes "\<not> neither_string_nor_array files" and "\<not> leading_bang p"
    and "opts_or_new st options = (opts, st1)"
    and "makeRe E st1 p (Some opts) = (Inr re, st2)"
    and "match_loop E st2 (arrayify files) re opts [] = (Inr res, st3)"
  shows "(get_prop (heap st1 opts) ''nonegate'' = JBool True
            \<and> truthy (get_prop (heap st1 opts) ''negate'') \<longrightarrow>
            fst (match E st files p options) = Inr (Matches (diff (arrayify files) res)))
       \<and> (\<not> (get_prop (heap st1 opts) ''nonegate'' = JBool True
               \<and> truthy (get_prop (heap st1 opts) ''negate'')) \<longrightarrow>
            fst (match E st files p options) =
              Inr (if truthy (get_prop (heap st2 opts) ''nonull'') \<and> res = []
                   then Pattern re else Matches res))
       \<and> (steady E (regs st2 re) \<longrightarrow>
            (\<exists>fps. map (\<lambda>f. unixify_val E f (heap st2 opts)) (arrayify files) = map Inr fps
               \<and> res = filter (\<lambda>fp. fst (isMatch E st2 fp (PRe re) (Some opts)) = Inr True) fps))"
proof -
  have n: "negation (heap st1 opts) p =
      (get_prop (heap st1 opts) ''nonegate'' = JBool True \<and> truthy (get_prop (heap st1 opts) ''negate''), p)"
    using assms(2) by (simp add: negation_def Let_def)
  have mk: "makeRe E st1 (snd (negation (heap st1 opts) p)) (Some opts) = (Inr re, st2)"
    using assms(4) n by simp
  have h: "heap st3 = heap st2" using match_loop_frame[OF assms(5)] by simp
  have s: "steady E (regs st2 re) \<longrightarrow>
            (\<exists>fps. map (\<lambda>f. unixify_val E f (heap st2 opts)) (arrayify files) = map Inr fps
               \<and> res = filter (\<lambda>fp. fst (isMatch E st2 fp (PRe re) (Some opts)) = Inr True) fps)"
    using match_loop_steady[OF _ assms(5)] by auto
  show ?thesis
    using s by (simp add: match_unfold[OF assms(1,3) mk] assms(5) n h)
qed

text \<open>
  An instance: on the candidates \<open>a\<close>, \<open>b\<close> and the pattern \<open>a\<close>, the options
  \<open>{negate: true}\<close> give \<open>a\<close> and the options \<open>{negate: true, nonegate: true}\<close> give \<open>b\<close>.
\<close>

theorem match_negate_option_witness:
  "fst (match lit_env (fresh [[(''negate'', JBool True)]]) (Arr [JStr ''a'', JStr ''b'']) ''a'' (Some 0))
     = Inr (Matches [JStr ''a''])
   \<and> fst (match lit_env (fresh [[(''negate'', JBool True), (''nonegate'', JBool True)]])
          (Arr [JStr ''a'', JStr ''b'']) ''a'' (Some 0))
     = Inr (Matches [JStr ''b''])"
proof -
  let ?s = "fresh [[(''negate'', JBool True)]]"
  let ?t = "fresh [[(''negate'', JBool True), (''nonegate'', JBool True)]]"
  let ?files = "Arr [JStr ''a'', JStr ''b'']"
  let ?s2 = "snd (makeRe lit_env ?s ''a'' (Some 0))"
  let ?t2 = "snd (makeRe lit_env ?t ''a'' (Some 0))"
  have f: "\<not> neither_string_nor_array ?files" and b: "\<not> leading_bang ''a''" by simp_all
  have os: "opts_or_new ?s (Some 0) = (0, ?s)" and ot: "opts_or_new ?t (Some 0) = (0, ?t)"
    by (simp_all add: opts_or_new_def)
  have ms: "makeRe lit_env ?s ''a'' (Some 0) = (Inr 0, ?s2)"
    by (rule prod_eqI) (code_simp, simp)
  have mt: "makeRe lit_env ?t ''a'' (Some 0) = (Inr 0, ?t2)"
    by (rule prod_eqI) (code_simp, simp)
  have ls: "match_loop lit_env ?s2 (arrayify ?files) 0 0 []
              = (Inr [JStr ''a''], snd (match_loop lit_env ?s2 (arrayify ?files) 0 0 []))"
    by (rule prod_eqI) (code_simp, simp)
  have lt: "match_loop lit_env ?t2 (arrayify ?files) 0 0 []
              = (Inr [JStr ''a''], snd (match_loop lit_env ?t2 (arrayify ?files) 0 0 []))"
    by (rule prod_eqI) (code_simp, simp)
  have ps: "get_prop (heap ?s 0) ''nonegate'' \<noteq> JBool True" by code_simp
  have pt: "get_prop (heap ?t 0) ''nonegate'' = JBool True \<and> truthy (get_prop (heap ?t 0) ''negate'')"
    by code_simp
  have ns: "\<not> truthy (get_prop (heap ?s2 0) ''nonull'')" by code_simp
  have d: "diff (arrayify ?files) [JStr ''a''] = [JStr ''b'']" by code_simp
  show ?thesis
    using match_negate_option[OF f b os ms ls] match_negate_option[OF f b ot mt lt] ps pt ns d
    by simp
qed

text \<open>
  With \<open>negate\<close> set and \<open>nonegate\<close> absent the matching is not negated: the pattern \<open>a\<close>
  does not start with \<open>!\<close>, and \<open>match\<close> returns the candidate \<open>a\<close>, which matches it.
\<close>

theorem match_negate_counterexample:
  "\<not> leading_bang ''a''
   \<and> get_prop (heap (fresh [[(''negate'', JBool True)]]) 0) ''nonegate'' = JUndefined
   \<and> get_prop (heap (fresh [[(''negate'', JBool True)]]) 0) ''negate'' = JBool True
   \<and> fst (match lit_env (fresh [[(''negate'', JBool True)]]) (Arr [JStr ''a'', JStr ''b'']) ''a'' (Some 0))
       = Inr (Matches [JStr ''a''])"
  by code_simp

section \<open>The array that match returns\<close>




section \<open>The basename test of isMatch\<close>

text \<open>
  Claim C6. Take \<open>isMatch\<close> with an options object and a pattern that is a compiled
  matcher or a glob, which is compiled first; if compiling fails, \<open>isMatch\<close> fails with
  that error. When \<open>matchBase\<close> is set on the options at the time \<open>isMatch\<close> reads it,
  which is the case when it was set before the call and the translator leaves it as it
  is, \<open>isMatch\<close> fails with an error for every candidate on which the basename pattern
  finds no match, instead of going on to the test of the full path; for every other
  candidate it completes, with the result of the basename test or else of the test of
  the full path, the second made on the matcher as the first left it.
\<close>

theorem isMatch_matchBase:
  assumes "(case pattern of PRe r \<Rightarrow> (Inr r, st) | PStr g \<Rightarrow> makeRe E st g (Some a)) = (out, st1)"
    and "truthy (get_prop (heap st1 a) ''matchBase'')
         \<or> (truthy (get_prop (heap st a) ''matchBase'')
            \<and> (\<forall>g ob. get_prop (snd (expand E g ob)) ''matchBase'' = get_prop ob ''matchBase''))"
  shows "fst (isMatch E st fp pattern (Some a)) =
     (case out of
        Inl e \<Rightarrow> Inl e
      | Inr re \<Rightarrow>
         (case fileRe E fp of
            None \<Rightarrow> Inl NullMatchTypeError
          | Some base \<Rightarrow>
              Inr (fst (test E st1 re (JStr base))
                   \<or> fst (test E (snd (test E st1 re (JStr base))) re fp))))"
proof -
  have mb: "truthy (get_prop (heap st1 a) ''matchBase'')"
  proof (cases pattern)
    case (PRe r)
    with assms show ?thesis by auto
  next
    case (PStr g)
    with assms(1) have mk: "makeRe E st g (Some a) = (out, st1)" by simp
    from assms(2) show ?thesis
    proof
      assume "truthy (get_prop (heap st1 a) ''matchBase'')"
      then show ?thesis .
    next
      assume h: "truthy (get_prop (heap st a) ''matchBase'')
            \<and> (\<forall>g ob. get_prop (snd (expand E g ob)) ''matchBase'' = get_prop ob ''matchBase'')"
      then have "get_prop (heap st1 a) ''matchBase'' = get_prop (heap st a) ''matchBase''"
        using makeRe_keeps_prop[OF mk, of "''matchBase''"] by simp
      with h show ?thesis by simp
    qed
  qed
  with assms(1) show ?thesis
    by (auto simp: isMatch_def Let_def split_beta split: sum.splits option.splits)
qed

text \<open>
  An instance: under \<open>matchBase\<close> the candidate \<open>dir/\<close> has no basename and \<open>isMatch\<close>
  fails for it, with a glob and with a compiled matcher, and the candidate \<open>dir/a.js\<close>
  matches the glob \<open>a.js\<close>.
\<close>

theorem isMatch_matchBase_witness:
  "truthy (get_prop (heap (fresh [[(''matchBase'', JBool True)]]) 0) ''matchBase'')
   \<and> fst (isMatch lit_env (fresh [[(''matchBase'', JBool True)]]) (JStr ''dir/'') (PStr ''a.js'') (Some 0))
       = Inl NullMatchTypeError
   \<and> fst (isMatch lit_env (fresh [[(''matchBase'', JBool True)]]) (JStr ''dir/a.js'') (PStr ''a.js'') (Some 0))
       = Inr True
   \<and> fst (isMatch lit_env (snd (makeRe lit_env (fresh [[(''matchBase'', JBool True)]]) ''a.js'' (Some 0)))
            (JStr ''dir/'') (PRe 0) (Some 0))
       = Inl NullMatchTypeError"
proof -
  let ?s = "fresh [[(''matchBase'', JBool True)]]"
  let ?mk = "makeRe lit_env ?s ''a.js'' (Some 0)"
  have c: "(case PStr ''a.js'' of PRe r \<Rightarrow> (Inr r, ?s) | PStr g \<Rightarrow> makeRe lit_env ?s g (Some 0))
             = (Inr 0, snd ?mk)"
    by (rule prod_eqI) (code_simp, simp)
  have c2: "(case PRe 0 of PRe r \<Rightarrow> (Inr r, snd ?mk) | PStr g \<Rightarrow> makeRe lit_env (snd ?mk) g (Some 0))
             = (Inr 0, snd ?mk)"
    by simp
  have h0: "truthy (get_prop (heap ?s 0) ''matchBase'')" by code_simp
  have pure: "\<forall>g ob. get_prop (snd (expand lit_env g ob)) ''matchBase'' = get_prop ob ''matchBase''"
    by (simp add: lit_env_def lit_expand_def)
  have h1: "truthy (get_prop (heap (snd ?mk) 0) ''matchBase'')" by code_simp
  have d: "truthy (get_prop (heap (snd ?mk) 0) ''matchBase'')
         \<or> (truthy (get_prop (heap ?s 0) ''matchBase'')
            \<and> (\<forall>g ob. get_prop (snd (expand lit_env g ob)) ''matchBase'' = get_prop ob ''matchBase''))"
    using h0 pure by blast
  have d2: "truthy (get_prop (heap (snd ?mk) 0) ''matchBase'')
         \<or> (truthy (get_prop (heap (snd ?mk) 0) ''matchBase'')
            \<and> (\<forall>g ob. get_prop (snd (expand lit_env g ob)) ''matchBase'' = get_prop ob ''matchBase''))"
    using h1 by blast
  have b1: "fileRe lit_env (JStr ''dir/'') = None" by code_simp
  have b2: "fileRe lit_env (JStr ''dir/a.js'') = Some ''a.js''" by code_simp
  have t: "fst (test lit_env (snd ?mk) 0 (JStr ''a.js''))" by code_simp
  show ?thesis
    using h0 isMatch_matchBase[OF c d, of "JStr ''dir/''"]
      isMatch_matchBase[OF c d, of "JStr ''dir/a.js''"]
      isMatch_matchBase[OF c2 d2, of "JStr ''dir/''"] b1 b2 t
    by simp
qed

section \<open>The resolver on absent and empty arguments\<close>

text \<open>
  Claim C7, as the code has it.
  \<^item> If the candidates or the patterns are absent or the empty string, \<open>micromatch\<close>
    returns the empty array and touches nothing.
  \<^item> If the patterns are an empty array, it returns the empty array.
  \<^item> If the candidates are an empty array and the patterns an array, every pattern is
    still compiled: \<open>micromatch\<close> returns the empty array unless compiling one of them
    fails, and then it fails with the error of compiling.
  \<^item> If the candidates are an empty array and the pattern is a single string that is
    not empty, the pattern is compiled: \<open>micromatch\<close> fails if compiling fails, and
    otherwise returns the empty array, unless the pattern is not taken as a negation and
    \<open>nonull\<close> is set, in which case it returns the matcher.
\<close>

theorem micromatch_empty:
  assumes "opts_or_new st options = (opts, st1)"
  shows "(falsy files \<or> falsy patterns \<longrightarrow>
            micromatch E st files patterns options = (Inr (Matches []), st))
       \<and> fst (micromatch E st files (Arr []) options) = Inr (Matches [])
       \<and> (case fst (micromatch E st (Arr []) (Arr globs) options) of
            Inl e \<Rightarrow> compile_error e
          | Inr r \<Rightarrow> r = Matches [])
       \<and> (p \<noteq> [] \<longrightarrow>
            fst (micromatch E st (Arr []) (Val (JStr p)) options) =
              (case makeRe E st1 (snd (negation (heap st1 opts) p)) (Some opts) of
                 (Inl e, st2) \<Rightarrow> Inl e
               | (Inr re, st2) \<Rightarrow>
                   Inr (if fst (negation (heap st1 opts) p) then Matches []
                        else if truthy (get_prop (heap st2 opts) ''nonull'') then Pattern re
                        else Matches [])))"
proof -
  have 1: "falsy files \<or> falsy patterns \<longrightarrow>
            micromatch E st files patterns options = (Inr (Matches []), st)"
    by (simp add: micromatch_def)
  have 2: "fst (micromatch E st files (Arr []) options) = Inr (Matches [])"
    using assms by (simp add: micromatch_def)
  have f: "\<not> falsy (Arr [] :: jsval arg)" by simp
  have 3: "case fst (micromatch E st (Arr []) (Arr globs) options) of
            Inl e \<Rightarrow> compile_error e
          | Inr r \<Rightarrow> r = Matches []"
    using match_outputs_no_files[of E st1 opts globs] positive_acc_empty[of _ globs]
    by (auto simp: micromatch_Arr[OF f assms] split: prod.splits sum.splits)
  have 4: "fst (micromatch E st (Arr []) (Val (JStr p)) options) =
              (case makeRe E st1 (snd (negation (heap st1 opts) p)) (Some opts) of
                 (Inl e, st2) \<Rightarrow> Inl e
               | (Inr re, st2) \<Rightarrow>
                   Inr (if fst (negation (heap st1 opts) p) then Matches []
                        else if truthy (get_prop (heap st2 opts) ''nonull'') then Pattern re
                        else Matches []))"
    if "p \<noteq> []"
  proof -
    obtain out st2 where mk: "makeRe E st1 (snd (negation (heap st1 opts) p)) (Some opts) = (out, st2)"
      by (cases "makeRe E st1 (snd (negation (heap st1 opts) p)) (Some opts)")
    from match_no_files[OF opts_or_new_Some mk] that assms mk show ?thesis
      by (simp add: micromatch_def split: sum.splits)
  qed
  from 1 2 3 4 show ?thesis by blast
qed

text \<open>
  An instance: the calls \<open>micromatch('', 'whatever')\<close>, \<open>micromatch(['x'], [])\<close>,
  \<open>micromatch([], ['a', '!b'])\<close> and \<open>micromatch([], 'whatever')\<close> return the empty array.
\<close>

theorem micromatch_empty_witness:
  "micromatch lit_env (fresh []) (Val (JStr [])) (Val (JStr ''whatever'')) None
     = (Inr (Matches []), fresh [])
   \<and> fst (micromatch lit_env (fresh []) (Arr [JStr ''x'']) (Arr []) None) = Inr (Matches [])
   \<and> fst (micromatch lit_env (fresh []) (Arr []) (Arr [''a'', ''!b'']) None) = Inr (Matches [])
   \<and> fst (micromatch lit_env (fresh []) (Arr []) (Val (JStr ''whatever'')) None) = Inr (Matches [])"
proof -
  let ?st1 = "snd (opts_or_new (fresh []) None)"
  have o: "opts_or_new (fresh []) None = (0, ?st1)" by (simp add: opts_or_new_def fresh_def)
  have ne: "''whatever'' \<noteq> []" by simp
  have c: "\<not> isl (fst (micromatch lit_env (fresh []) (Arr []) (Arr [''a'', ''!b'']) None))"
    by code_simp
  have m: "(case makeRe lit_env ?st1 (snd (negation (heap ?st1 0) ''whatever'')) (Some 0) of
                 (Inl e, st2) \<Rightarrow> Inl e
               | (Inr re, st2) \<Rightarrow>
                   Inr (if fst (negation (heap ?st1 0) ''whatever'') then Matches []
                        else if truthy (get_prop (heap st2 0) ''nonull'') then Pattern re
                        else Matches [])) = Inr (Matches [])"
    by code_simp
  have 3: "fst (micromatch lit_env (fresh []) (Arr []) (Arr [''a'', ''!b'']) None) = Inr (Matches [])"
    using micromatch_empty[OF o, of "Arr []" "Arr []" lit_env "[''a'', ''!b'']" "''whatever''"] c
    by (auto split: sum.splits)
  show ?thesis
    using micromatch_empty[OF o, of "Val (JStr [])" "Val (JStr ''whatever'')" lit_env "[]" "''whatever''"]
      micromatch_empty[OF o, of "Arr [JStr ''x'']" "Arr []" lit_env "[]" "''whatever''"] 3 m ne
    by simp
qed

text \<open>
  With \<open>nonull\<close> set, empty candidates do not give an empty array:
  \<open>micromatch([], 'whatever', {nonull: true})\<close> returns the matcher compiled from the
  pattern.
\<close>

theorem micromatch_empty_counterexample:
  "fst (micromatch lit_env (fresh [[(''nonull'', JBool True)]]) (Arr []) (Val (JStr ''whatever'')) (Some 0))
     = Inr (Pattern 0)
   \<and> source (regs (snd (micromatch lit_env (fresh [[(''nonull'', JBool True)]]) (Arr [])
                      (Val (JStr ''whatever'')) (Some 0))) 0) = ''^(?:whatever)$''"
  by code_simp

section \<open>The errors of match\<close>

text \<open>
  Claim C8, as the code has it. For every candidates argument, pattern and options,
  \<open>match\<close> fails with \<open>InvalidInputKind\<close> if and only if the candidates are neither a
  string nor an array; the elements of an array are not looked at. It then fails before
  anything else happens, and the state is as it was. It is the only error that \<open>match\<close>
  throws itself, and it is not the only one a call can end with:
  \<^item> the \<open>TypeError\<close> of \<open>isMatch\<close> only when \<open>matchBase\<close> is set;
  \<^item> a \<open>SyntaxError\<close> only when the flags are not a string or \<open>new RegExp\<close> rejects
    some source and flags;
  \<^item> another exception only when the translator or the normaliser throws it.
\<close>

theorem match_InvalidInputKind:
  assumes "opts_or_new st options = (opts, st1)"
  shows "(fst (match E st files p options) = Inl InvalidInputKind \<longleftrightarrow> neither_string_nor_array files)
       \<and> (neither_string_nor_array files \<longrightarrow> match E st files p options = (Inl InvalidInputKind, st))
       \<and> (fst (match E st files p options) = Inl NullMatchTypeError \<longrightarrow>
            truthy (get_prop (heap (snd (match E st files p options)) opts) ''matchBase''))
       \<and> (fst (match E st files p options) = Inl SyntaxError \<longrightarrow>
            flags_or_empty (heap st1 opts) = None \<or> (\<exists>src fl. \<not> RegExp_ok E src fl))
       \<and> (\<forall>k. fst (match E st files p options) = Inl (Thrown k) \<longrightarrow>
            (\<exists>g ob. fst (expand E g ob) = Inl k) \<or> (\<exists>s ob. unixify E s ob = Inl k)
            \<or> (\<exists>v ob. unixify_other E v ob = Inl k))"
proof (cases "neither_string_nor_array files")
  case True
  then show ?thesis by (simp add: match_def)
next
  case False
  obtain out st2 where mk: "makeRe E st1 (snd (negation (heap st1 opts) p)) (Some opts) = (out, st2)"
    by (cases "makeRe E st1 (snd (negation (heap st1 opts) p)) (Some opts)")
  note m = match_unfold[OF False assms mk]
  show ?thesis
  proof (cases out)
    case (Inl e)
    from makeRe_provenance[OF opts_or_new_Some] mk Inl
    have "(e = SyntaxError \<and> (flags_or_empty (heap st1 opts) = None \<or> (\<exists>src f. \<not> RegExp_ok E src f)))
       \<or> (\<exists>k. e = Thrown k \<and> ((\<exists>g ob. fst (expand E g ob) = Inl k) \<or> (\<exists>s ob. unixify E s ob = Inl k)))"
      by blast
    with m Inl False show ?thesis by auto
  next
    case (Inr re)
    obtain lo st3 where ml: "match_loop E st2 (arrayify files) re opts [] = (lo, st3)"
      by (cases "match_loop E st2 (arrayify files) re opts []")
    have h: "heap st3 = heap st2" using match_loop_frame[OF ml] by simp
    show ?thesis
    proof (cases lo)
      case (Inl e)
      from match_loop_error[of E st2 "arrayify files" re opts "[]" e st3] ml Inl
      have "(e = NullMatchTypeError \<and> truthy (get_prop (heap st2 opts) ''matchBase''))
          \<or> (\<exists>k f. e = Thrown k \<and> unixify_val E f (heap st2 opts) = Inl k)"
        by blast
      then have "(e = NullMatchTypeError \<and> truthy (get_prop (heap st2 opts) ''matchBase''))
          \<or> (\<exists>k. e = Thrown k \<and> ((\<exists>s ob. unixify E s ob = Inl k)
                                     \<or> (\<exists>v ob. unixify_other E v ob = Inl k)))"
        using unixify_val_provenance[of E _ "heap st2 opts"] by blast
      then show ?thesis
        using m \<open>out = Inr re\<close> ml Inl False h by auto
    next
      case (Inr res)
      with m \<open>out = Inr re\<close> ml False show ?thesis by simp
    qed
  qed
qed

text \<open>
  An instance: \<open>match(undefined, 'a')\<close> and \<open>match({}, 'a')\<close> fail with
  \<open>InvalidInputKind\<close>;
  \<open>match(['dir/'], 'a.js', {matchBase: true})\<close> fails with the \<open>TypeError\<close>; and
  \<open>match(['a'], 'a', {flags: 'i', nocase: true})\<close> fails with a \<open>SyntaxError\<close>, the flags
  being \<open>ii\<close>.
\<close>

theorem match_InvalidInputKind_witness:
  "match lit_env (fresh []) (Val JUndefined) ''a'' None = (Inl InvalidInputKind, fresh [])
   \<and> neither_string_nor_array (Val JUndefined :: jsval arg)
   \<and> match lit_env (fresh []) (Val (JObj 0)) ''a'' None = (Inl InvalidInputKind, fresh [])
   \<and> fst (match lit_env (fresh [[(''matchBase'', JBool True)]]) (Arr [JStr ''dir/'']) ''a.js'' (Some 0))
       = Inl NullMatchTypeError
   \<and> truthy (get_prop (heap (snd (match lit_env (fresh [[(''matchBase'', JBool True)]])
                                    (Arr [JStr ''dir/'']) ''a.js'' (Some 0))) 0) ''matchBase'')
   \<and> fst (match lit_env (fresh [[(''flags'', JStr ''i''), (''nocase'', JBool True)]])
            (Arr [JStr ''a'']) ''a'' (Some 0)) = Inl SyntaxError
   \<and> (\<exists>src fl. \<not> RegExp_ok lit_env src fl)"
proof -
  let ?s = "fresh [[(''matchBase'', JBool True)]]"
  let ?t = "fresh [[(''flags'', JStr ''i''), (''nocase'', JBool True)]]"
  have o0: "opts_or_new (fresh []) None = (0, snd (opts_or_new (fresh []) None))"
    by (simp add: opts_or_new_def fresh_def)
  have os: "opts_or_new ?s (Some 0) = (0, ?s)" and ot: "opts_or_new ?t (Some 0) = (0, ?t)"
    by (simp_all add: opts_or_new_def)
  have 1: "fst (match lit_env ?s (Arr [JStr ''dir/'']) ''a.js'' (Some 0)) = Inl NullMatchTypeError"
    by code_simp
  have 2: "fst (match lit_env ?t (Arr [JStr ''a'']) ''a'' (Some 0)) = Inl SyntaxError"
    by code_simp
  have 3: "flags_or_empty (heap ?t 0) \<noteq> None" by code_simp
  have 4: "neither_string_nor_array (Val JUndefined :: jsval arg)" by simp
  have 5: "neither_string_nor_array (Val (JObj 0) :: jsval arg)" by simp
  show ?thesis
    using match_InvalidInputKind[OF o0, of lit_env "Val JUndefined" "''a''"]
      match_InvalidInputKind[OF o0, of lit_env "Val (JObj 0)" "''a''"] 5
      match_InvalidInputKind[OF os, of lit_env "Arr [JStr ''dir/'']" "''a.js''"]
      match_InvalidInputKind[OF ot, of lit_env "Arr [JStr ''a'']" "''a''"] 1 2 3 4
    by simp
qed

text \<open>
  An array that is not a sequence of strings is accepted: \<open>match([1, 'a'], 'a')\<close>
  raises no error and returns \<open>a\<close>.
\<close>

theorem match_InvalidInputKind_counterexample:
  "fst (match lit_env (fresh []) (Arr [JNum 0x3FF0000000000000, JStr ''a'']) ''a'' None)
     = Inr (Matches [JStr ''a''])"
  by code_simp

section \<open>Anchoring\<close>

text \<open>
  Claim C9. For every fragment \<open>f\<close>, \<open>wrapGlob\<close> gives exactly \<open>^(?:f)$\<close> when the flag
  is false and exactly \<open>^(?!^(?:f)$).*$\<close> when it is true.
\<close>

theorem wrapGlob_anchors:
  "wrapGlob f False = ''^(?:'' @ f @ '')$'' \<and> wrapGlob f True = ''^(?!^(?:'' @ f @ '')$).*$''"
  by (simp add: wrapGlob_def)

section \<open>What makeRe writes to the options\<close>

text \<open>
  Claim C10, as the code has it. Take a call of \<open>makeRe\<close> with an options object.
  \<^item> No other options object is changed.
  \<^item> The call compiles nothing or compiles once. If it compiles nothing (the cached
    matcher is returned, or the normaliser throws), the options object is as it was.
  \<^item> If it compiles, the translator is called on the glob or on its normalised form and
    may itself write to the options object. If the translator throws, the object is as
    the translator left it. Otherwise \<open>makeRe\<close> writes one property of that object,
    \<open>negated\<close>: it keeps a truthy value and replaces any other value by the flag
    \<open>negated\<close> of the translator. A matcher that is returned is wrapped as a negation
    exactly when the value kept is truthy or that flag is true.
  \<^item> So, if the translator writes nothing to the options object: every property other
    than \<open>negated\<close> is as it was; an object on which \<open>negated\<close> is truthy is not
    changed, and every call with it that compiles and returns a matcher returns a
    negated one; and an object that is changed has the translator's flag as its
    \<open>negated\<close>.
\<close>

theorem makeRe_negated_only:
  assumes "makeRe E st glob (Some a) = (out, st')"
  shows "(\<forall>b. b \<noteq> a \<longrightarrow> heap st' b = heap st b)
       \<and> (ncompiled st' = ncompiled st \<or> ncompiled st' = Suc (ncompiled st))
       \<and> (ncompiled st' = ncompiled st \<longrightarrow> heap st' a = heap st a)
       \<and> (ncompiled st' = Suc (ncompiled st) \<longrightarrow>
            (\<exists>g. (g = glob \<or> unixify E glob (heap st a) = Inr g) \<and>
               (case expand E g (heap st a) of
                  (Inl k, ob1) \<Rightarrow> out = Inl (Thrown k) \<and> heap st' a = ob1
                | (Inr parsed, ob1) \<Rightarrow>
                    heap st' a = set_prop ob1 ''negated''
                       (if truthy (get_prop ob1 ''negated'') then get_prop ob1 ''negated''
                        else JBool (snd parsed))
                    \<and> (\<forall>re. out = Inr re \<longrightarrow>
                          source (regs st' re)
                            = wrapGlob (fst parsed) (truthy (get_prop ob1 ''negated'') \<or> snd parsed)))))
       \<and> ((\<forall>g. snd (expand E g (heap st a)) = heap st a) \<longrightarrow>
            (\<forall>prop. prop \<noteq> ''negated'' \<longrightarrow> map_of (heap st' a) prop = map_of (heap st a) prop)
            \<and> (truthy (get_prop (heap st a) ''negated'') \<longrightarrow>
                 heap st' a = heap st a
                 \<and> (\<forall>re. ncompiled st' = Suc (ncompiled st) \<and> out = Inr re \<longrightarrow>
                       (\<exists>f. source (regs st' re) = ''^(?!^(?:'' @ f @ '')$).*$'')))
            \<and> (heap st' a \<noteq> heap st a \<longrightarrow>
                 (\<exists>g parsed ob1. expand E g (heap st a) = (Inr parsed, ob1)
                    \<and> get_prop (heap st' a) ''negated'' = JBool (snd parsed))))"
proof -
  from makeRe_Some_cases[OF assms]
  consider (same) "heap st' = heap st" "ncompiled st' = ncompiled st"
    | (comp) g st5 where "g = glob \<or> unixify E glob (heap st a) = Inr g"
        "heap st5 = heap st" "ncompiled st5 = ncompiled st"
        "compile E st5 g a (flags_or_empty (heap st a)) = (out, st')"
    by blast
  then show ?thesis
  proof cases
    case same
    then show ?thesis by simp
  next
    case comp
    obtain pout ob1 where ex: "expand E g (heap st a) = (pout, ob1)"
      by (cases "expand E g (heap st a)")
    have ex5: "expand E g (heap st5 a) = (pout, ob1)" using ex comp(2) by simp
    note cc = compile_cases[OF comp(4) ex5]
    have n: "ncompiled st' = Suc (ncompiled st)" using cc comp(3) by simp
    have 1: "\<forall>b. b \<noteq> a \<longrightarrow> heap st' b = heap st b" using cc comp(2) by simp
    have 4: "\<exists>g. (g = glob \<or> unixify E glob (heap st a) = Inr g) \<and>
               (case expand E g (heap st a) of
                  (Inl k, ob1) \<Rightarrow> out = Inl (Thrown k) \<and> heap st' a = ob1
                | (Inr parsed, ob1) \<Rightarrow>
                    heap st' a = set_prop ob1 ''negated''
                       (if truthy (get_prop ob1 ''negated'') then get_prop ob1 ''negated''
                        else JBool (snd parsed))
                    \<and> (\<forall>re. out = Inr re \<longrightarrow>
                          source (regs st' re)
                            = wrapGlob (fst parsed) (truthy (get_prop ob1 ''negated'') \<or> snd parsed)))"
    proof (intro exI[of _ g] conjI)
      show "g = glob \<or> unixify E glob (heap st a) = Inr g" by (rule comp(1))
      show "case expand E g (heap st a) of
              (Inl k, ob1) \<Rightarrow> out = Inl (Thrown k) \<and> heap st' a = ob1
            | (Inr parsed, ob1) \<Rightarrow>
                heap st' a = set_prop ob1 ''negated''
                   (if truthy (get_prop ob1 ''negated'') then get_prop ob1 ''negated''
                    else JBool (snd parsed))
                \<and> (\<forall>re. out = Inr re \<longrightarrow>
                      source (regs st' re)
                        = wrapGlob (fst parsed) (truthy (get_prop ob1 ''negated'') \<or> snd parsed))"
        using cc ex by (cases pout) (auto split: sum.splits)
    qed
    have 5: "(\<forall>prop. prop \<noteq> ''negated'' \<longrightarrow> map_of (heap st' a) prop = map_of (heap st a) prop)
            \<and> (truthy (get_prop (heap st a) ''negated'') \<longrightarrow>
                 heap st' a = heap st a
                 \<and> (\<forall>re. ncompiled st' = Suc (ncompiled st) \<and> out = Inr re \<longrightarrow>
                       (\<exists>f. source (regs st' re) = ''^(?!^(?:'' @ f @ '')$).*$'')))
            \<and> (heap st' a \<noteq> heap st a \<longrightarrow>
                 (\<exists>g parsed ob1. expand E g (heap st a) = (Inr parsed, ob1)
                    \<and> get_prop (heap st' a) ''negated'' = JBool (snd parsed)))"
      if pure: "\<forall>g. snd (expand E g (heap st a)) = heap st a"
    proof -
      have ob: "ob1 = heap st a" using pure ex by (metis snd_conv)
      show ?thesis
      proof (cases pout)
        case (Inl k)
        with cc ob show ?thesis by simp
      next
        case (Inr parsed)
        have hp: "heap st' a = set_prop (heap st a) ''negated''
                 (if truthy (get_prop (heap st a) ''negated'') then get_prop (heap st a) ''negated''
                  else JBool (snd parsed))"
          using cc Inr ob by simp
        have a1: "\<forall>prop. prop \<noteq> ''negated'' \<longrightarrow> map_of (heap st' a) prop = map_of (heap st a) prop"
          using hp by (simp add: map_of_set_prop)
        have a2: "heap st' a = heap st a" if "truthy (get_prop (heap st a) ''negated'')"
          using that hp by (simp add: set_prop_same truthy_has)
        have a3: "\<exists>f. source (regs st' re) = ''^(?!^(?:'' @ f @ '')$).*$''"
          if "truthy (get_prop (heap st a) ''negated'')" "out = Inr re" for re
        proof -
          have "source (regs st' re) = wrapGlob (fst parsed) True"
            using that cc Inr ob by auto
          then show ?thesis unfolding wrapGlob_def by (intro exI[of _ "fst parsed"]) simp
        qed
        have a4: "\<exists>g parsed ob1. expand E g (heap st a) = (Inr parsed, ob1)
                    \<and> get_prop (heap st' a) ''negated'' = JBool (snd parsed)"
          if "heap st' a \<noteq> heap st a"
        proof -
          have "\<not> truthy (get_prop (heap st a) ''negated'')" using that a2 by blast
          then have "get_prop (heap st' a) ''negated'' = JBool (snd parsed)"
            using hp by (simp add: get_set_prop)
          with ex Inr show ?thesis by blast
        qed
        from a1 a2 a3 a4 show ?thesis by blast
      qed
    qed
    from 1 n 4 5 show ?thesis by simp
  qed
qed

text \<open>
  An instance: \<open>makeRe('!a', o)\<close> with \<open>o = {}\<close> in a freshly loaded module sets
  \<open>o.negated\<close> to the translator's flag \<open>true\<close>; \<open>makeRe('b', o)\<close> then compiles,
  leaves \<open>o\<close> as it is and returns a negated matcher.
\<close>

theorem makeRe_negated_only_witness:
  "truthy (get_prop (heap (snd (makeRe lit_env (fresh [[]]) ''!a'' (Some 0))) 0) ''negated'')
   \<and> ncompiled (snd (makeRe lit_env (snd (makeRe lit_env (fresh [[]]) ''!a'' (Some 0))) ''b'' (Some 0)))
       = Suc (ncompiled (snd (makeRe lit_env (fresh [[]]) ''!a'' (Some 0))))
   \<and> heap (snd (makeRe lit_env (snd (makeRe lit_env (fresh [[]]) ''!a'' (Some 0))) ''b'' (Some 0))) 0
       = heap (snd (makeRe lit_env (fresh [[]]) ''!a'' (Some 0))) 0
   \<and> (\<exists>f. source (regs (snd (makeRe lit_env (snd (makeRe lit_env (fresh [[]]) ''!a'' (Some 0))) ''b'' (Some 0))) 1)
            = ''^(?!^(?:'' @ f @ '')$).*$'')
   \<and> heap (snd (makeRe lit_env (fresh [[]]) ''!a'' (Some 0))) 0 \<noteq> heap (fresh [[]]) 0
   \<and> (\<exists>g parsed ob1. expand lit_env g (heap (fresh [[]]) 0) = (Inr parsed, ob1)
         \<and> get_prop (heap (snd (makeRe lit_env (fresh [[]]) ''!a'' (Some 0))) 0) ''negated''
             = JBool (snd parsed))"
proof -
  let ?st = "snd (makeRe lit_env (fresh [[]]) ''!a'' (Some 0))"
  let ?m2 = "makeRe lit_env ?st ''b'' (Some 0)"
  have h0: "makeRe lit_env (fresh [[]]) ''!a'' (Some 0)
             = (fst (makeRe lit_env (fresh [[]]) ''!a'' (Some 0)), ?st)"
    by simp
  have o2: "fst ?m2 = Inr 1" by code_simp
  have h: "?m2 = (Inr 1, snd ?m2)" using o2 by (simp add: prod_eq_iff)
  have pure: "\<forall>g. snd (expand lit_env g ob) = ob" for ob
    by (simp add: lit_env_def lit_expand_def)
  have t: "truthy (get_prop (heap ?st 0) ''negated'')" by code_simp
  have n: "ncompiled (snd ?m2) = Suc (ncompiled ?st)" by code_simp
  have c: "heap ?st 0 \<noteq> heap (fresh [[]]) 0" by code_simp
  note A = makeRe_negated_only[OF h, THEN conjunct2, THEN conjunct2, THEN conjunct2,
              THEN conjunct2, THEN mp, OF pure]
  note B = makeRe_negated_only[OF h0, THEN conjunct2, THEN conjunct2, THEN conjunct2,
              THEN conjunct2, THEN mp, OF pure]
  have a: "heap (snd ?m2) 0 = heap ?st 0" using A t by blast
  have b: "\<exists>f. source (regs (snd ?m2) 1) = ''^(?!^(?:'' @ f @ '')$).*$''"
    using A t n by blast
  have d: "\<exists>g parsed ob1. expand lit_env g (heap (fresh [[]]) 0) = (Inr parsed, ob1)
         \<and> get_prop (heap ?st 0) ''negated'' = JBool (snd parsed)"
    using B c by blast
  from t n a b c d show ?thesis by blast
qed

text \<open>
  A later call with an options object on which \<open>negated\<close> is \<open>true\<close> need not produce a
  negated matcher, since it need not compile. With \<open>o = {}\<close> and \<open>p = {}\<close> in a freshly
  loaded module, \<open>makeRe('!a', o)\<close> sets \<open>o.negated\<close>; \<open>makeRe('b', p)\<close> compiles the
  plain matcher \<open>^(?:b)$\<close>, the options \<open>p\<close> agreeing with \<open>o\<close>; and \<open>makeRe('b', o)\<close>
  then returns that cached matcher, which is not negated.
\<close>

theorem makeRe_negated_counterexample:
  "get_prop (heap (fresh [[], []]) 0) ''negated'' = JUndefined
   \<and> get_prop (heap (snd (makeRe lit_env (fresh [[], []]) ''!a'' (Some 0))) 0) ''negated'' = JBool True
   \<and> get_prop (heap (snd (makeRe lit_env (snd (makeRe lit_env (fresh [[], []]) ''!a'' (Some 0)))
                              ''b'' (Some 1))) 0) ''negated'' = JBool True
   \<and> fst (makeRe lit_env
            (snd (makeRe lit_env (snd (makeRe lit_env (fresh [[], []]) ''!a'' (Some 0))) ''b'' (Some 1)))
            ''b'' (Some 0)) = Inr 1
   \<and> source (regs (snd (makeRe lit_env
            (snd (makeRe lit_env (snd (makeRe lit_env (fresh [[], []]) ''!a'' (Some 0))) ''b'' (Some 1)))
            ''b'' (Some 0))) 1) = ''^(?:b)$''"
  by code_simp

end
